theory Spec2Isabelle
  imports Main "HOL-Library.AList"
begin

section \<open>Data model (src/types.ts)\<close>

text \<open>
  The TypeScript string unions become datatypes, the interfaces become records. A JavaScript
  object used as a dictionary (\<open>ServiceMap\<close>, \<open>ChangeRequestMap\<close>) is the association
  list of its own properties in enumeration order: the spread \<open>{ ...obj, [k]: v }\<close> is
  \<open>AList.update\<close> (an existing key keeps its position, a new key goes to the end) and
  \<open>delete obj[k]\<close> is \<open>AList.delete\<close>. Keys that look like integers, which JavaScript
  enumerates first, are not treated specially. An optional field is an \<open>option\<close>, with
  \<open>None\<close> for \<open>undefined\<close>. A string is the list of its code units.
\<close>

datatype TelcoKey = Mtn | Telecel | Airteltigo | Glo

datatype Role = Admin | Rep TelcoKey

datatype FieldKey = Code | Explanation

datatype Status = Draft | Pending | Approved | Rejected

record TelcoInfo =
  code :: string
  explanation :: string

record Telcos =
  mtn :: TelcoInfo
  telecel :: TelcoInfo
  airteltigo :: TelcoInfo
  glo :: TelcoInfo

record ServiceEntry =
  service_id :: string
  service_name :: string
  description :: "string option"
  telcos :: Telcos
  active :: bool
  lastUpdated :: string

type_synonym ServiceMap = "(string \<times> ServiceEntry) list"

record Session =
  role :: Role
  displayName :: string

record ChangeRequest =
  req_id :: string
  serviceId :: string
  field :: string
  oldValue :: string
  newValue :: string
  requestedBy :: string
  requestedAt :: string
  status :: Status
  reviewedBy :: "string option"
  reviewedAt :: "string option"
  comments :: "string option"

type_synonym ChangeRequestMap = "(string \<times> ChangeRequest) list"

text \<open>
  The state of the \<open>App\<close> component that the handlers read and write: the catalog, the
  ledger and the session, and the messages shown so far through \<open>alert\<close>.
\<close>

record App =
  services :: ServiceMap
  changeRequests :: ChangeRequestMap
  session :: "Session option"
  alerts :: "string list"

text \<open>
  What a function can raise: the \<open>Error\<close> that \<open>normalizeImported\<close> throws, and the
  \<open>TypeError\<close> of the engine (a property read of \<open>undefined\<close> or \<open>null\<close>, a write
  to a read-only property, a value that cannot be made a string).
\<close>

datatype js_error = Error string | TypeError

subsection \<open>Reading a property of a plain object\<close>

text \<open>
  \<open>obj[k]\<close> on a plain object finds an own property, or else a property of
  \<open>Object.prototype\<close>. The names below are the properties of \<open>Object.prototype\<close>;
  under each of them a plain object that has no own property of that name yields a
  built-in object: a function, or, for \<open>__proto__\<close>, \<open>Object.prototype\<close> itself. A
  built-in object is truthy and has none of the properties that the code below reads
  from what it looks up (\<open>telcos\<close>, \<open>service_name\<close>, \<open>status\<close>, the network names,
  \<open>code\<close>). The built-in objects are taken as the engine provides them: a write that
  reaches one of them is not followed.
\<close>

definition inherited_names :: "string list" where
  "inherited_names =
     [''constructor'', ''__defineGetter__'', ''__defineSetter__'', ''hasOwnProperty'',
      ''__lookupGetter__'', ''__lookupSetter__'', ''isPrototypeOf'', ''propertyIsEnumerable'',
      ''toString'', ''valueOf'', ''__proto__'', ''toLocaleString'']"

datatype 'a slot = Own 'a | Inherited | Absent

definition js_get :: "(string \<times> 'a) list \<Rightarrow> string \<Rightarrow> 'a slot" where
  "js_get obj k =
     (case map_of obj k of
        Some v \<Rightarrow> Own v
      | None \<Rightarrow> if k \<in> set inherited_names then Inherited else Absent)"

subsection \<open>Network records and field paths\<close>

fun telco_name :: "TelcoKey \<Rightarrow> string" where
  "telco_name Mtn = ''mtn''"
| "telco_name Telecel = ''telecel''"
| "telco_name Airteltigo = ''airteltigo''"
| "telco_name Glo = ''glo''"

definition TELCOS :: "TelcoKey list" where
  "TELCOS = [Mtn, Telecel, Airteltigo, Glo]"

text \<open>The own property of a \<open>telcos\<close> record that a name selects, if any.\<close>

definition telco_of_name :: "string \<Rightarrow> TelcoKey option" where
  "telco_of_name n = List.find (\<lambda>t. telco_name t = n) TELCOS"

fun key_name :: "FieldKey \<Rightarrow> string" where
  "key_name Code = ''code''"
| "key_name Explanation = ''explanation''"

text \<open>\<open>telcos[telco]\<close> read and written.\<close>

fun telco_get :: "TelcoKey \<Rightarrow> Telcos \<Rightarrow> TelcoInfo" where
  "telco_get Mtn ts = mtn ts"
| "telco_get Telecel ts = telecel ts"
| "telco_get Airteltigo ts = airteltigo ts"
| "telco_get Glo ts = glo ts"

fun telco_set :: "TelcoKey \<Rightarrow> TelcoInfo \<Rightarrow> Telcos \<Rightarrow> Telcos" where
  "telco_set Mtn t ts = ts\<lparr>mtn := t\<rparr>"
| "telco_set Telecel t ts = ts\<lparr>telecel := t\<rparr>"
| "telco_set Airteltigo t ts = ts\<lparr>airteltigo := t\<rparr>"
| "telco_set Glo t ts = ts\<lparr>glo := t\<rparr>"

fun info_get :: "FieldKey \<Rightarrow> TelcoInfo \<Rightarrow> string" where
  "info_get Code t = code t"
| "info_get Explanation t = explanation t"

text \<open>
  \<open>(info as any)[key] = value\<close> for an arbitrary property name. A name other than
  \<open>code\<close> and \<open>explanation\<close> adds a property that \<open>TelcoInfo\<close> does not declare; the
  two declared fields keep their values.
\<close>

definition info_set_prop :: "string \<Rightarrow> string \<Rightarrow> TelcoInfo \<Rightarrow> TelcoInfo" where
  "info_set_prop k v t =
     (if k = ''code'' then t\<lparr>code := v\<rparr>
      else if k = ''explanation'' then t\<lparr>explanation := v\<rparr>
      else t)"

text \<open>The template \<open>`telcos.${telco}.${key}`\<close>.\<close>

definition field_path :: "TelcoKey \<Rightarrow> FieldKey \<Rightarrow> string" where
  "field_path telco key = ''telcos.'' @ telco_name telco @ ''.'' @ key_name key"

text \<open>\<open>s.split(sep)\<close> for a one-character separator; \<open>''.split('.')\<close> is \<open>['']\<close>.\<close>

fun split_on :: "char \<Rightarrow> string \<Rightarrow> string list" where
  "split_on sep [] = [[]]"
| "split_on sep (c # cs) =
     (if c = sep then [] # split_on sep cs
      else (case split_on sep cs of
              [] \<Rightarrow> [[c]]
            | w # ws \<Rightarrow> (c # w) # ws))"

text \<open>An array element that may be missing (\<open>undefined\<close>).\<close>

definition nth_opt :: "'a list \<Rightarrow> nat \<Rightarrow> 'a option" where
  "nth_opt xs i = (if i < length xs then Some (xs ! i) else None)"

text \<open>
  \<open>const [, telco, key] = field.split('.')\<close> together with the test \<open>telco && key\<close>:
  the two components when both are there and not empty.
\<close>

definition path_parts :: "string \<Rightarrow> (string \<times> string) option" where
  "path_parts fld =
     (let parts = split_on CHR ''.'' fld in
      case (nth_opt parts 1, nth_opt parts 2) of
        (Some telco, Some key) \<Rightarrow> if telco \<noteq> [] \<and> key \<noteq> [] then Some (telco, key) else None
      | _ \<Rightarrow> None)"

text \<open>
  Whether the assignment \<open>target[key] = value\<close> of a string throws (the module is in
  strict mode), for the built-in object \<open>target\<close> found under the inherited name
  \<open>telco\<close>. Under \<open>__proto__\<close> the target is \<open>Object.prototype\<close>, whose properties are
  writable. Under the other names it is a function: its \<open>length\<close> and \<open>name\<close> are
  read-only, \<open>caller\<close> and \<open>arguments\<close> have a setter that throws, and the
  \<open>prototype\<close> of \<open>Object\<close>, found under \<open>constructor\<close>, is read-only.
\<close>

definition builtin_write_throws :: "string \<Rightarrow> string \<Rightarrow> bool" where
  "builtin_write_throws telco key \<longleftrightarrow>
     telco \<noteq> ''__proto__''
     \<and> (key \<in> set [''length'', ''name'', ''caller'', ''arguments'']
        \<or> (telco = ''constructor'' \<and> key = ''prototype''))"

section \<open>The handlers of the change-request ledger (src/App.tsx)\<close>

text \<open>
  Each handler is a function of the component state. The readings of the clock
  (\<open>nowISO()\<close>) and the generated identifier (\<open>generateChangeRequestId()\<close>) are
  arguments. A handler that returns leaves the state \<open>Inr st\<close>; the early \<open>return\<close>s
  are the branches that give back the state they were given. A handler that throws gives
  \<open>Inl\<close>: each throw comes before the handler has set any state, so the component keeps
  the state it had (\<open>settle\<close>).
\<close>

definition settle :: "App \<Rightarrow> js_error + App \<Rightarrow> App" where
  "settle st r = (case r of Inl e \<Rightarrow> st | Inr st' \<Rightarrow> st')"

definition role_of :: "App \<Rightarrow> Role option" where
  "role_of st = map_option role (session st)"

text \<open>\<open>session?.displayName || dflt\<close>\<close>

definition display_or :: "App \<Rightarrow> string \<Rightarrow> string" where
  "display_or st dflt =
     (case session st of
        None \<Rightarrow> dflt
      | Some s \<Rightarrow> if displayName s = [] then dflt else displayName s)"

text \<open>
  Under an inherited name \<open>services[id]\<close> is a built-in object; its \<open>telcos\<close> is
  \<open>undefined\<close>, and reading \<open>service.telcos[telco]\<close> throws.
\<close>

definition setTelcoField ::
  "string \<Rightarrow> string \<Rightarrow> string \<Rightarrow> TelcoKey \<Rightarrow> FieldKey \<Rightarrow> string \<Rightarrow> App \<Rightarrow> js_error + App" where
  "setTelcoField now fresh ident telco key val st =
     (if \<not> (role_of st = Some Admin \<or> role_of st = Some (Rep telco)) then Inr st
      else case js_get (services st) ident of
        Absent \<Rightarrow> Inr st
      | Inherited \<Rightarrow> Inl TypeError
      | Own service \<Rightarrow>
          let old = info_get key (telco_get telco (telcos service)) in
          if role_of st = Some Admin then
            let s = service\<lparr>telcos := telco_set telco
                        (info_set_prop (key_name key) val (telco_get telco (telcos service)))
                        (telcos service),
                      lastUpdated := now\<rparr>
            in Inr (st\<lparr>services := AList.update ident s (services st)\<rparr>)
          else
            (case List.find (\<lambda>req. serviceId req = ident \<and> field req = field_path telco key
                                    \<and> status req = Draft)
                    (map snd (changeRequests st)) of
               Some existingDraft \<Rightarrow>
                 let updatedRequest = existingDraft\<lparr>newValue := val, requestedAt := now\<rparr>
                 in Inr (st\<lparr>changeRequests :=
                           AList.update (req_id existingDraft) updatedRequest (changeRequests st)\<rparr>)
             | None \<Rightarrow>
                 let request = \<lparr>req_id = fresh, serviceId = ident,
                                field = field_path telco key, oldValue = old, newValue = val,
                                requestedBy = display_or st ''Unknown User'',
                                requestedAt = now, status = Draft,
                                reviewedBy = None, reviewedAt = None, comments = None\<rparr>
                 in Inr (st\<lparr>changeRequests :=
                           AList.update fresh request (changeRequests st)\<rparr>)))"

text \<open>
  The \<open>if (telco && key && service.telcos[telco]) { ... }\<close> of \<open>approveChangeRequest\<close>
  on a service of the catalog. \<open>service.telcos[telco]\<close> is one of the four records, or a
  built-in object under an inherited name (the write then lands on that object, or
  throws, and \<open>lastUpdated\<close> is stamped), or \<open>undefined\<close>.
\<close>

definition apply_field ::
  "string \<Rightarrow> string \<Rightarrow> string \<Rightarrow> ServiceEntry \<Rightarrow> js_error + ServiceEntry" where
  "apply_field now fld val service =
     (case path_parts fld of
        None \<Rightarrow> Inr service
      | Some (telco, key) \<Rightarrow>
          (case telco_of_name telco of
             Some t \<Rightarrow>
               Inr (service\<lparr>telcos := telco_set t
                             (info_set_prop key val (telco_get t (telcos service)))
                             (telcos service),
                           lastUpdated := now\<rparr>)
           | None \<Rightarrow>
               if telco \<in> set inherited_names then
                 (if builtin_write_throws telco key then Inl TypeError
                  else Inr (service\<lparr>lastUpdated := now\<rparr>))
               else Inr service))"

text \<open>
  A request id that is an inherited name gives a built-in object, whose \<open>status\<close> is
  \<open>undefined\<close>: the guard on the status returns, here and in the handlers below. When
  the service id is an inherited name, \<open>service\<close> is a built-in object: with both path
  components present, reading \<open>service.telcos[telco]\<close> throws; otherwise the request is
  approved, the catalog is persisted as it is, and the message names
  \<open>service.service_name\<close>, which is \<open>undefined\<close>.
\<close>

definition approveChangeRequest ::
  "string \<Rightarrow> string \<Rightarrow> string \<Rightarrow> App \<Rightarrow> js_error + App" where
  "approveChangeRequest now_applied now_reviewed requestId st =
     (if role_of st \<noteq> Some Admin then Inr st
      else case js_get (changeRequests st) requestId of
        Absent \<Rightarrow> Inr st
      | Inherited \<Rightarrow> Inr st
      | Own request \<Rightarrow>
          if status request \<noteq> Pending then Inr st
          else
            let updatedRequest = request\<lparr>status := Approved,
                                        reviewedBy := Some (display_or st ''Admin''),
                                        reviewedAt := Some now_reviewed\<rparr>;
                nextRequests = AList.update requestId updatedRequest (changeRequests st)
            in (case js_get (services st) (serviceId request) of
              Absent \<Rightarrow> Inr st
            | Inherited \<Rightarrow>
                (case path_parts (field request) of
                   Some p \<Rightarrow> Inl TypeError
                 | None \<Rightarrow>
                     Inr (st\<lparr>changeRequests := nextRequests,
                            alerts := alerts st @
                              [''Change approved: '' @ field request @ '' updated for ''
                                 @ ''undefined'']\<rparr>))
            | Own service0 \<Rightarrow>
                (case apply_field now_applied (field request) (newValue request) service0 of
                   Inl e \<Rightarrow> Inl e
                 | Inr service \<Rightarrow>
                     Inr (st\<lparr>services := AList.update (serviceId request) service (services st),
                            changeRequests := nextRequests,
                            alerts := alerts st @
                              [''Change approved: '' @ field request @ '' updated for ''
                                 @ service_name service]\<rparr>))))"

definition rejectChangeRequest ::
  "string \<Rightarrow> string \<Rightarrow> string option \<Rightarrow> App \<Rightarrow> js_error + App" where
  "rejectChangeRequest now requestId cmts st =
     (if role_of st \<noteq> Some Admin then Inr st
      else case js_get (changeRequests st) requestId of
        Absent \<Rightarrow> Inr st
      | Inherited \<Rightarrow> Inr st
      | Own request \<Rightarrow>
          if status request \<noteq> Pending then Inr st
          else
            let updatedRequest = request\<lparr>status := Rejected,
                                        reviewedBy := Some (display_or st ''Admin''),
                                        reviewedAt := Some now,
                                        comments := cmts\<rparr>
            in Inr (st\<lparr>changeRequests := AList.update requestId updatedRequest (changeRequests st),
                       alerts := alerts st @
                         [''Change rejected: '' @ field request @ '' for ''
                            @ (case js_get (services st) (serviceId request) of
                                 Own s \<Rightarrow> if service_name s = [] then ''Unknown Service''
                                          else service_name s
                               | Inherited \<Rightarrow> ''Unknown Service''
                               | Absent \<Rightarrow> ''Unknown Service'')]\<rparr>))"

definition submitDraftChange :: "string \<Rightarrow> string \<Rightarrow> App \<Rightarrow> js_error + App" where
  "submitDraftChange now requestId st =
     (case js_get (changeRequests st) requestId of
        Absent \<Rightarrow> Inr st
      | Inherited \<Rightarrow> Inr st
      | Own request \<Rightarrow>
          if status request \<noteq> Draft then Inr st
          else
            let updatedRequest = request\<lparr>status := Pending, requestedAt := now\<rparr>
            in Inr (st\<lparr>changeRequests := AList.update requestId updatedRequest (changeRequests st),
                       alerts := alerts st @ [''Change request submitted for admin review!'']\<rparr>))"

text \<open>\<open>delete\<close> removes an own property only.\<close>

definition cancelDraftChange :: "string \<Rightarrow> App \<Rightarrow> js_error + App" where
  "cancelDraftChange requestId st =
     Inr (st\<lparr>changeRequests := AList.delete requestId (changeRequests st)\<rparr>)"

definition recallPendingChange :: "string \<Rightarrow> string \<Rightarrow> App \<Rightarrow> js_error + App" where
  "recallPendingChange now requestId st =
     (case js_get (changeRequests st) requestId of
        Absent \<Rightarrow> Inr st
      | Inherited \<Rightarrow> Inr st
      | Own request \<Rightarrow>
          if status request \<noteq> Pending then Inr st
          else
            let updatedRequest = request\<lparr>status := Draft, requestedAt := now\<rparr>
            in Inr (st\<lparr>changeRequests := AList.update requestId updatedRequest (changeRequests st),
                       alerts := alerts st @ [''Change recalled! You can now edit and resubmit.'']\<rparr>))"

text \<open>
  The user actions on the ledger as data, and a sequence of them run from a state; an
  action whose handler throws leaves the state as it is, and the next action follows.
  \<open>OpLogin\<close> is \<open>setSession\<close> (logging in as a role, or out with \<open>None\<close>).
\<close>

datatype Op =
    OpSetTelcoField string string string TelcoKey FieldKey string
  | OpSubmit string string
  | OpRecall string string
  | OpApprove string string string
  | OpReject string string "string option"
  | OpCancel string
  | OpLogin "Session option"

fun handler :: "Op \<Rightarrow> App \<Rightarrow> js_error + App" where
  "handler (OpSetTelcoField now fresh ident telco key val) st =
     setTelcoField now fresh ident telco key val st"
| "handler (OpSubmit now requestId) st = submitDraftChange now requestId st"
| "handler (OpRecall now requestId) st = recallPendingChange now requestId st"
| "handler (OpApprove now_applied now_reviewed requestId) st =
     approveChangeRequest now_applied now_reviewed requestId st"
| "handler (OpReject now requestId cmts) st = rejectChangeRequest now requestId cmts st"
| "handler (OpCancel requestId) st = cancelDraftChange requestId st"
| "handler (OpLogin sess) st = Inr (st\<lparr>session := sess\<rparr>)"

definition step :: "Op \<Rightarrow> App \<Rightarrow> App" where
  "step op st = settle st (handler op st)"

fun run :: "Op list \<Rightarrow> App \<Rightarrow> App" where
  "run [] st = st"
| "run (op # ops) st = run ops (step op st)"

fun is_recall :: "Op \<Rightarrow> bool" where
  "is_recall (OpRecall now requestId) = True"
| "is_recall _ = False"

text \<open>How many requests of a status the ledger holds for a (service, field) pair.\<close>

definition count_for :: "Status \<Rightarrow> string \<Rightarrow> string \<Rightarrow> ChangeRequestMap \<Rightarrow> nat" where
  "count_for s sid fld l =
     length (filter (\<lambda>r. status r = s \<and> serviceId r = sid \<and> field r = fld) (map snd l))"

text \<open>
  A ledger as the handlers build it: the keys are distinct (it is an object) and every
  request is stored under its own \<open>id\<close>.
\<close>

definition ledger_wf :: "ChangeRequestMap \<Rightarrow> bool" where
  "ledger_wf l \<longleftrightarrow> distinct (map fst l) \<and> list_all (\<lambda>(k, r). req_id r = k) l"

section \<open>JSON values\<close>

text \<open>
  What \<open>JSON.parse\<close> returns and what the API serves. A \<open>JObj\<close> carries the own
  properties of the object in enumeration order. A number is carried as the text that
  \<open>String\<close> gives for it (the text determines the number up to the sign of zero, and
  both zeros give \<open>0\<close>).
\<close>

datatype json =
    JNull
  | JBool bool
  | JNum string
  | JStr string
  | JArr "json list"
  | JObj "(string \<times> json) list"

fun truthy :: "json \<Rightarrow> bool" where
  "truthy JNull = False"
| "truthy (JBool b) = b"
| "truthy (JNum r) = (r \<noteq> ''0'')"
| "truthy (JStr s) = (s \<noteq> [])"
| "truthy (JArr xs) = True"
| "truthy (JObj es) = True"

text \<open>The value of an expression when it is truthy; \<open>undefined\<close> is \<open>None\<close>.\<close>

definition truthy_val :: "json option \<Rightarrow> json option" where
  "truthy_val x = (case x of None \<Rightarrow> None | Some v \<Rightarrow> if truthy v then Some v else None)"

text \<open>\<open>typeof v === 'object'\<close> (true of \<open>null\<close> and of arrays as well).\<close>

fun typeof_object :: "json \<Rightarrow> bool" where
  "typeof_object JNull = True"
| "typeof_object (JArr xs) = True"
| "typeof_object (JObj es) = True"
| "typeof_object _ = False"

fun isArray :: "json \<Rightarrow> bool" where
  "isArray (JArr xs) = True"
| "isArray _ = False"

text \<open>
  \<open>v[k]\<close> and \<open>v.k\<close> on a value that is not \<open>null\<close>, for a property name that no
  prototype defines and that is not an array index: the names read with it are the four
  network names, \<open>service_name\<close>, \<open>description\<close>, \<open>code\<close> and \<open>explanation\<close>.
\<close>

fun get_prop :: "json \<Rightarrow> string \<Rightarrow> json option" where
  "get_prop (JObj es) k = map_of es k"
| "get_prop _ k = None"

text \<open>The same on what \<open>js_get\<close> found: a built-in object has no such property.\<close>

fun prop_truthy :: "json slot \<Rightarrow> bool" where
  "prop_truthy (Own v) = truthy v"
| "prop_truthy Inherited = True"
| "prop_truthy Absent = False"

fun prop_get :: "json slot \<Rightarrow> string \<Rightarrow> json option" where
  "prop_get (Own v) k = get_prop v k"
| "prop_get Inherited k = None"
| "prop_get Absent k = None"

text \<open>\<open>a ?? b\<close>\<close>

fun nullish_or :: "json option \<Rightarrow> json \<Rightarrow> json" where
  "nullish_or None b = b"
| "nullish_or (Some JNull) b = b"
| "nullish_or (Some v) b = v"

text \<open>The decimal text of an array index.\<close>

definition digit_char :: "nat \<Rightarrow> char" where
  "digit_char n = ''0123456789'' ! n"

function string_of_nat :: "nat \<Rightarrow> string" where
  "string_of_nat n =
     (if n < 10 then [digit_char n] else string_of_nat (n div 10) @ [digit_char (n mod 10)])"
  by pat_completeness auto
termination
  by (relation "measure id") auto

text \<open>\<open>xs.join(sep)\<close>\<close>

fun join :: "string \<Rightarrow> string list \<Rightarrow> string" where
  "join sep [] = []"
| "join sep [x] = x"
| "join sep (x # y # ys) = x @ sep @ join sep (y # ys)"

text \<open>The results of a sequence of steps, or the first error among them.\<close>

fun collect :: "('e + 'a) list \<Rightarrow> 'e + 'a list" where
  "collect [] = Inr []"
| "collect (Inl e # rs) = Inl e"
| "collect (Inr x # rs) = (case collect rs of Inl e \<Rightarrow> Inl e | Inr xs \<Rightarrow> Inr (x # xs))"

text \<open>
  \<open>String(v)\<close>. An array joins the strings of its elements with commas, \<open>null\<close>
  elements as empty. An object gives \<open>[object Object]\<close> through the inherited
  \<open>toString\<close>; with an own property \<open>toString\<close>, which in a parsed document is never a
  function, no method gives a primitive value and \<open>String\<close> throws.
\<close>

fun js_String :: "json \<Rightarrow> js_error + string" where
  "js_String JNull = Inr ''null''"
| "js_String (JBool b) = Inr (if b then ''true'' else ''false'')"
| "js_String (JNum r) = Inr r"
| "js_String (JStr s) = Inr s"
| "js_String (JArr xs) =
     (case collect (map (\<lambda>x. if x = JNull then Inr [] else js_String x) xs) of
        Inl e \<Rightarrow> Inl e
      | Inr ss \<Rightarrow> Inr (join '','' ss))"
| "js_String (JObj es) =
     (if map_of es ''toString'' \<noteq> None then Inl TypeError else Inr ''[object Object]'')"

text \<open>\<open>Object.entries(v)\<close>; it throws on \<open>null\<close>.\<close>

fun js_entries :: "json \<Rightarrow> js_error + (string \<times> json) list" where
  "js_entries JNull = Inl TypeError"
| "js_entries (JObj es) = Inr es"
| "js_entries (JArr xs) = Inr (zip (map string_of_nat [0..<length xs]) xs)"
| "js_entries (JStr s) = Inr (zip (map string_of_nat [0..<length s]) (map (\<lambda>c. JStr [c]) s))"
| "js_entries _ = Inr []"

text \<open>
  The assignment \<open>obj[k] = v\<close> of an object \<open>v\<close> to an object built from \<open>{}\<close> by
  such assignments: the key \<open>__proto__\<close> sets the prototype of \<open>obj\<close> and adds no own
  property.
\<close>

definition obj_assign :: "string \<Rightarrow> 'a \<Rightarrow> (string \<times> 'a) list \<Rightarrow> (string \<times> 'a) list" where
  "obj_assign k v obj = (if k = ''__proto__'' then obj else AList.update k v obj)"

section \<open>Export and import projections (src/utils.ts)\<close>

definition info_json :: "TelcoInfo \<Rightarrow> json" where
  "info_json t = JObj [(''code'', JStr (code t)), (''explanation'', JStr (explanation t))]"

definition export_entry :: "ServiceEntry \<Rightarrow> json" where
  "export_entry s =
     JObj [(''service_name'', JStr (service_name s)),
           (''mtn'', info_json (mtn (telcos s))),
           (''telecel'', info_json (telecel (telcos s))),
           (''airteltigo'', info_json (airteltigo (telcos s))),
           (''glo'', info_json (glo (telcos s)))]"

text \<open>
  The \<open>forEach\<close> of \<open>toOriginalSchema\<close> over \<open>Object.values(map)\<close>; the result is
  given by its own properties.
\<close>

fun export_loop :: "ServiceEntry list \<Rightarrow> (string \<times> json) list \<Rightarrow> (string \<times> json) list" where
  "export_loop [] out = out"
| "export_loop (s # ss) out =
     (if \<not> active s then export_loop ss out
      else export_loop ss (obj_assign (service_id s) (export_entry s) out))"

definition toOriginalSchema :: "ServiceMap \<Rightarrow> json" where
  "toOriginalSchema m = JObj (export_loop (map snd m) [])"

text \<open>One round of \<open>for (const key of ['mtn', 'telecel', 'airteltigo', 'glo'])\<close>.\<close>

definition norm_telco :: "json \<Rightarrow> string \<Rightarrow> js_error + TelcoInfo" where
  "norm_telco obj key =
     (let t = (case truthy_val (get_prop obj key) of None \<Rightarrow> JObj [] | Some v \<Rightarrow> v) in
      case js_String (nullish_or (get_prop t ''code'') (JStr [])) of
        Inl e \<Rightarrow> Inl e
      | Inr c \<Rightarrow>
          (case js_String (nullish_or (get_prop t ''explanation'') (JStr [])) of
             Inl e \<Rightarrow> Inl e
           | Inr x \<Rightarrow> Inr \<lparr>code = c, explanation = x\<rparr>))"

text \<open>\<open>obj.description ? String(obj.description) : undefined\<close>\<close>

definition norm_description :: "json \<Rightarrow> js_error + string option" where
  "norm_description obj =
     (case truthy_val (get_prop obj ''description'') of
        None \<Rightarrow> Inr None
      | Some d \<Rightarrow> (case js_String d of Inl e \<Rightarrow> Inl e | Inr s \<Rightarrow> Inr (Some s)))"

text \<open>The body of the loop of \<open>normalizeImported\<close> up to the entry it builds.\<close>

definition norm_entry :: "string \<Rightarrow> string \<Rightarrow> json \<Rightarrow> js_error + ServiceEntry" where
  "norm_entry now sid obj =
     (case js_String (nullish_or (get_prop obj ''service_name'') (JStr sid)) of
        Inl e \<Rightarrow> Inl e
      | Inr name \<Rightarrow>
     (case norm_description obj of
        Inl e \<Rightarrow> Inl e
      | Inr descr \<Rightarrow>
     (case norm_telco obj ''mtn'' of
        Inl e \<Rightarrow> Inl e
      | Inr t1 \<Rightarrow>
     (case norm_telco obj ''telecel'' of
        Inl e \<Rightarrow> Inl e
      | Inr t2 \<Rightarrow>
     (case norm_telco obj ''airteltigo'' of
        Inl e \<Rightarrow> Inl e
      | Inr t3 \<Rightarrow>
     (case norm_telco obj ''glo'' of
        Inl e \<Rightarrow> Inl e
      | Inr t4 \<Rightarrow>
          Inr \<lparr>service_id = sid, service_name = name, description = descr,
               telcos = \<lparr>mtn = t1, telecel = t2, airteltigo = t3, glo = t4\<rparr>,
               active = True, lastUpdated = now\<rparr>))))))"

text \<open>
  The loop of \<open>normalizeImported\<close>; \<open>clock i\<close> is the time read in round \<open>i\<close>. The
  result is given by its own properties.
\<close>

fun normalize_entries ::
  "(nat \<Rightarrow> string) \<Rightarrow> nat \<Rightarrow> (string \<times> json) list \<Rightarrow> ServiceMap \<Rightarrow> js_error + ServiceMap" where
  "normalize_entries clock i [] result = Inr result"
| "normalize_entries clock i ((sid, obj) # rest) result =
     (if \<not> truthy obj \<or> \<not> typeof_object obj then normalize_entries clock (Suc i) rest result
      else case norm_entry (clock i) sid obj of
        Inl e \<Rightarrow> Inl e
      | Inr entry \<Rightarrow> normalize_entries clock (Suc i) rest (obj_assign sid entry result))"

definition normalizeImported :: "(nat \<Rightarrow> string) \<Rightarrow> json \<Rightarrow> js_error + ServiceMap" where
  "normalizeImported clock jsonData =
     (if \<not> typeof_object jsonData \<or> isArray jsonData
      then Inl (Error ''Invalid JSON root. Expected an object.'')
      else case js_entries jsonData of
        Inl e \<Rightarrow> Inl e
      | Inr es \<Rightarrow> normalize_entries clock 0 es [])"

text \<open>
  The loop of \<open>applyTelcoSubset\<close> over the deep copy \<open>next\<close>. Under an inherited name
  \<open>next[service_id]\<close> is a built-in object, and reading its \<open>telcos[telco]\<close> throws;
  reading \<open>patch.code\<close> of a \<open>null\<close> patch throws; \<open>String\<close> may throw. The copy is
  dropped with the exception.
\<close>

fun apply_entries ::
  "(nat \<Rightarrow> string) \<Rightarrow> nat \<Rightarrow> TelcoKey \<Rightarrow> (string \<times> json) list \<Rightarrow> ServiceMap
     \<Rightarrow> js_error + ServiceMap" where
  "apply_entries clock i telco [] next = Inr next"
| "apply_entries clock i telco ((sid, patch) # rest) next =
     (case js_get next sid of
        Absent \<Rightarrow> apply_entries clock (Suc i) telco rest next
      | Inherited \<Rightarrow> Inl TypeError
      | Own entry \<Rightarrow>
          if patch = JNull then Inl TypeError
          else
            let t = telco_get telco (telcos entry) in
            case js_String (nullish_or (get_prop patch ''code'') (JStr (code t))) of
              Inl e \<Rightarrow> Inl e
            | Inr c \<Rightarrow>
                (case js_String (nullish_or (get_prop patch ''explanation'')
                                            (JStr (explanation t))) of
                   Inl e \<Rightarrow> Inl e
                 | Inr x \<Rightarrow>
                     apply_entries clock (Suc i) telco rest
                       (AList.update sid
                          (entry\<lparr>telcos := telco_set telco \<lparr>code = c, explanation = x\<rparr>
                                             (telcos entry),
                                 lastUpdated := clock i\<rparr>)
                          next)))"

definition applyTelcoSubset ::
  "(nat \<Rightarrow> string) \<Rightarrow> ServiceMap \<Rightarrow> TelcoKey \<Rightarrow> json \<Rightarrow> js_error + ServiceMap" where
  "applyTelcoSubset clock m telco subset_doc =
     (case js_entries subset_doc of
        Inl e \<Rightarrow> Inl e
      | Inr es \<Rightarrow> apply_entries clock 0 telco es m)"

section \<open>The read-only API (api/index.js, server_readonly.js)\<close>

text \<open>
  \<open>(n || '').trim().toLowerCase()\<close>; a missing argument is \<open>None\<close>. The two methods
  of \<open>String.prototype\<close> belong to the engine: they are the arguments \<open>tr\<close> and \<open>lo\<close>
  of the functions of this section.
\<close>

definition normalizeNetwork ::
  "(string \<Rightarrow> string) \<Rightarrow> (string \<Rightarrow> string) \<Rightarrow> string option \<Rightarrow> string" where
  "normalizeNetwork tr lo n = lo (tr (case n of None \<Rightarrow> [] | Some s \<Rightarrow> s))"

definition normalizeService ::
  "(string \<Rightarrow> string) \<Rightarrow> (string \<Rightarrow> string) \<Rightarrow> string option \<Rightarrow> string" where
  "normalizeService tr lo s = lo (tr (case s of None \<Rightarrow> [] | Some v \<Rightarrow> v))"

record Response =
  status_code :: nat
  body :: json

text \<open>An argument inside a template literal.\<close>

definition tmpl :: "string option \<Rightarrow> string" where
  "tmpl x = (case x of None \<Rightarrow> ''undefined'' | Some s \<Rightarrow> s)"

text \<open>An object literal as \<open>res.json\<close> sends it: a property that is \<open>undefined\<close> is left out.\<close>

definition json_obj :: "(string \<times> json option) list \<Rightarrow> json" where
  "json_obj props = JObj (List.map_filter (\<lambda>(k, v). map_option (Pair k) v) props)"

definition error_body :: "string \<Rightarrow> json" where
  "error_body msg = JObj [(''error'', JStr msg)]"

definition unknown_service :: "(string \<times> json) list \<Rightarrow> string option \<Rightarrow> Response" where
  "unknown_service data service =
     \<lparr>status_code = 404,
      body = error_body (''Unknown service '' @ [CHR 0x27] @ tmpl service @ [CHR 0x27]
               @ ''. Valid services: '' @ join '', '' (map fst data))\<rparr>"

definition unknown_network :: "string option \<Rightarrow> Response" where
  "unknown_network network =
     \<lparr>status_code = 400,
      body = error_body (''Unknown network '' @ [CHR 0x27] @ tmpl network @ [CHR 0x27]
               @ ''. Valid networks: mtn, telecel, airteltigo, glo'')\<rparr>"

definition no_entry :: "string option \<Rightarrow> string option \<Rightarrow> Response" where
  "no_entry service network =
     \<lparr>status_code = 404,
      body = error_body (''No entry for network '' @ [CHR 0x27] @ tmpl network
               @ [CHR 0x27] @ '' under service '' @ [CHR 0x27] @ tmpl service
               @ [CHR 0x27] @ ''.'')\<rparr>"

definition NETWORKS :: "string list" where
  "NETWORKS = [''mtn'', ''telecel'', ''airteltigo'', ''glo'']"

text \<open>
  \<open>data\<close> is the catalog the endpoint reads: the own properties of the object
  \<open>USSD_DATA\<close> in \<open>api/index.js\<close>, of the parsed data file in \<open>server_readonly.js\<close>,
  whose handler has the same body.
\<close>

definition handleLookup ::
  "(string \<Rightarrow> string) \<Rightarrow> (string \<Rightarrow> string) \<Rightarrow> (string \<times> json) list
     \<Rightarrow> string option \<Rightarrow> string option \<Rightarrow> Response" where
  "handleLookup tr lo data service network =
     (let sKey = normalizeService tr lo service;
          nKey = normalizeNetwork tr lo network;
          serviceBlob = js_get data sKey in
      if \<not> prop_truthy serviceBlob then unknown_service data service
      else if nKey \<notin> set NETWORKS then unknown_network network
      else (case truthy_val (prop_get serviceBlob nKey) of
        None \<Rightarrow> no_entry service network
      | Some entry \<Rightarrow>
          \<lparr>status_code = 200,
           body = json_obj [(''code'', get_prop entry ''code''),
                            (''explanation'', get_prop entry ''explanation'')]\<rparr>))"

text \<open>\<open>blob[n]?.code || null\<close>\<close>

definition code_or_null :: "json slot \<Rightarrow> string \<Rightarrow> json" where
  "code_or_null blob n =
     (let c = (case prop_get blob n of
                 None \<Rightarrow> None
               | Some JNull \<Rightarrow> None
               | Some r \<Rightarrow> get_prop r ''code'')
      in case truthy_val c of None \<Rightarrow> JNull | Some v \<Rightarrow> v)"

definition handleCompare ::
  "(string \<Rightarrow> string) \<Rightarrow> (string \<Rightarrow> string) \<Rightarrow> (string \<times> json) list
     \<Rightarrow> string option \<Rightarrow> Response" where
  "handleCompare tr lo data service =
     (let sKey = normalizeService tr lo service;
          blob = js_get data sKey in
      if \<not> prop_truthy blob then unknown_service data service
      else
        \<lparr>status_code = 200,
         body = JObj [(''mtn'', code_or_null blob ''mtn''),
                      (''telecel'', code_or_null blob ''telecel''),
                      (''airteltigo'', code_or_null blob ''airteltigo''),
                      (''glo'', code_or_null blob ''glo'')]\<rparr>)"

section \<open>Sample states\<close>

text \<open>A one-service catalog in the shape of the sample data, and a request on it.\<close>

definition sample_entry :: ServiceEntry where
  "sample_entry =
     \<lparr>service_id = ''check_balance'', service_name = ''Check Airtime Balance'',
      description = Some ''Main airtime balance'',
      telcos = \<lparr>mtn = \<lparr>code = ''*124#'', explanation = ''MTN balance''\<rparr>,
                telecel = \<lparr>code = ''*124#'', explanation = ''Telecel balance''\<rparr>,
                airteltigo = \<lparr>code = ''*134#'', explanation = ''AirtelTigo balance''\<rparr>,
                glo = \<lparr>code = ''*124#'', explanation = ''Glo balance''\<rparr>\<rparr>,
      active = True, lastUpdated = ''2025-11-01T09:00:00.000Z''\<rparr>"

definition sample_request :: "Status \<Rightarrow> string \<Rightarrow> ChangeRequest" where
  "sample_request s sid =
     \<lparr>req_id = ''cr_1'', serviceId = sid, field = ''telcos.mtn.code'',
      oldValue = ''*124#'', newValue = ''*125#'', requestedBy = ''Ama'',
      requestedAt = ''2025-11-01T09:30:00.000Z'', status = s,
      reviewedBy = None, reviewedAt = None, comments = None\<rparr>"

definition sample_app :: "Role \<Rightarrow> ChangeRequestMap \<Rightarrow> App" where
  "sample_app r l =
     \<lparr>services = [(''check_balance'', sample_entry)], changeRequests = l,
      session = Some \<lparr>role = r, displayName = ''Kofi''\<rparr>, alerts = []\<rparr>"

definition sample_data :: "(string \<times> json) list" where
  "sample_data =
     [(''check_balance'',
        JObj [(''service_name'', JStr ''Check Airtime Balance''),
              (''mtn'', JObj [(''code'', JStr ''*124#''), (''explanation'', JStr ''MTN balance'')]),
              (''telecel'', JObj [(''code'', JStr []), (''explanation'', JStr ''none yet'')]),
              (''glo'', JObj [(''code'', JStr ''*124#''), (''explanation'', JStr ''Glo balance'')])])]"

text \<open>A clock that always reads the same time, and strings left as they are.\<close>

definition sample_clock :: "nat \<Rightarrow> string" where
  "sample_clock i = ''2025-11-02T10:00:00.000Z''"

definition as_is :: "string \<Rightarrow> string" where
  "as_is s = s"

text \<open>
  The invariant of the ledger that the handlers other than \<open>recallPendingChange\<close> keep:
  it is well formed and holds at most one draft for each (service, field) pair.
\<close>

definition ledger_inv :: "App \<Rightarrow> bool" where
  "ledger_inv st \<longleftrightarrow> ledger_wf (changeRequests st)
      \<and> (\<forall>sid fld. count_for Draft sid fld (changeRequests st) \<le> 1)"

text \<open>
  Three sessions of the MTN representative on the code of \<open>check_balance\<close>: edit and
  submit twice; edit, submit, edit again and recall the first; edit twice, submit, edit.
\<close>

definition resubmit_ops :: "Op list" where
  "resubmit_ops =
     [OpSetTelcoField ''t1'' ''cr_a'' ''check_balance'' Mtn Code ''*125#'',
      OpSubmit ''t2'' ''cr_a'',
      OpSetTelcoField ''t3'' ''cr_b'' ''check_balance'' Mtn Code ''*126#'',
      OpSubmit ''t4'' ''cr_b'']"

definition recall_ops :: "Op list" where
  "recall_ops =
     [OpSetTelcoField ''t1'' ''cr_a'' ''check_balance'' Mtn Code ''*125#'',
      OpSubmit ''t2'' ''cr_a'',
      OpSetTelcoField ''t3'' ''cr_b'' ''check_balance'' Mtn Code ''*126#'',
      OpRecall ''t4'' ''cr_a'']"

definition edit_ops :: "Op list" where
  "edit_ops =
     [OpSetTelcoField ''t1'' ''cr_a'' ''check_balance'' Mtn Code ''*125#'',
      OpSetTelcoField ''t2'' ''cr_b'' ''check_balance'' Mtn Code ''*126#'',
      OpSubmit ''t3'' ''cr_a'',
      OpSetTelcoField ''t4'' ''cr_c'' ''check_balance'' Mtn Code ''*127#'']"

text \<open>
  A catalog with an inactive service, and subset documents: one with a patch and a
  \<open>null\<close> entry for an id that no object has, one with an entry under \<open>constructor\<close>.
\<close>

definition sample_catalog :: ServiceMap where
  "sample_catalog =
     [(''check_balance'', sample_entry),
      (''old_service'', sample_entry\<lparr>service_id := ''old_service'', active := False\<rparr>)]"

definition sample_subset :: json where
  "sample_subset =
     JObj [(''check_balance'', JObj [(''code'', JStr ''*555#'')]),
           (''unknown_service'', JNull)]"

definition inherited_subset :: json where
  "inherited_subset = JObj [(''constructor'', JObj [(''code'', JStr ''*555#'')])]"

text \<open>
  A catalog as the application keeps it: the services are stored under their ids, which
  are distinct, and none is stored under \<open>__proto__\<close>.
\<close>

definition catalog_wf :: "ServiceMap \<Rightarrow> bool" where
  "catalog_wf m \<longleftrightarrow> distinct (map fst m) \<and> list_all (\<lambda>(k, e). service_id e = k) m
      \<and> ''__proto__'' \<notin> set (map fst m)"

text \<open>
  What the full import makes of the \<open>j\<close>-th exported service: the note is gone and the
  time is that of the import.
\<close>

definition reimported :: "(nat \<Rightarrow> string) \<Rightarrow> nat \<times> string \<times> ServiceEntry \<Rightarrow> string \<times> ServiceEntry" where
  "reimported clock x =
     (case x of (j, k, e) \<Rightarrow> (k, e\<lparr>description := None, lastUpdated := clock j\<rparr>))"

text \<open>
  Two entries that agree on everything a subset import for network \<open>n\<close> must not touch:
  the id, the display name, the description, the active flag and the other networks.
\<close>

definition outside_unchanged :: "TelcoKey \<Rightarrow> ServiceEntry \<Rightarrow> ServiceEntry \<Rightarrow> bool" where
  "outside_unchanged n e e' \<longleftrightarrow>
     service_id e' = service_id e \<and> service_name e' = service_name e
     \<and> description e' = description e \<and> active e' = active e
     \<and> (\<forall>t. t \<noteq> n \<longrightarrow> telco_get t (telcos e') = telco_get t (telcos e))"


section \<open>Looking up own and inherited properties\<close>

lemma js_get_Own: "map_of obj k = Some v \<Longrightarrow> js_get obj k = Own v"
  by (simp add: js_get_def)

lemma js_get_None:
  "map_of obj k = None \<Longrightarrow> js_get obj k = (if k \<in> set inherited_names then Inherited else Absent)"
  by (simp add: js_get_def)

lemma js_get_Own_iff: "js_get obj k = Own v \<longleftrightarrow> map_of obj k = Some v"
  by (simp add: js_get_def split: option.splits)

lemma telco_name_not_inherited: "telco_name t \<notin> set inherited_names"
  by (cases t) (simp_all add: inherited_names_def)

section \<open>Approving a change request\<close>

lemma path_parts_field_path: "path_parts (field_path t k) = Some (telco_name t, key_name k)"
  by (cases t; cases k) (simp_all add: path_parts_def field_path_def nth_opt_def)

lemma telco_of_name_name: "telco_of_name (telco_name t) = Some t"
  by (cases t) (simp_all add: telco_of_name_def TELCOS_def)

lemma apply_field_path:
  "apply_field now (field_path t k) v s =
     Inr (s\<lparr>telcos := telco_set t (info_set_prop (key_name k) v (telco_get t (telcos s)))
                       (telcos s),
            lastUpdated := now\<rparr>)"
  by (simp add: apply_field_def path_parts_field_path telco_of_name_name)

lemma info_get_set: "info_get k (info_set_prop (key_name k) v t) = v"
  by (cases k) (simp_all add: info_set_prop_def)

lemma telco_get_set: "telco_get t (telco_set t x ts) = x"
  by (cases t) simp_all

text \<open>
  Claim C1. When an admin approves a request that is \<open>pending\<close>, whose target service is in
  the catalog and whose field is one of the eight paths \<open>telcos.<network>.<code|explanation>\<close>,
  the handler returns with the addressed leaf of that service equal to the request's
  \<open>newValue\<close>, the service's \<open>lastUpdated\<close> set to the time read while applying, and the
  request \<open>approved\<close> with \<open>reviewedBy\<close> and \<open>reviewedAt\<close> stamped (its other fields
  as before).
\<close>

theorem approve_applies_change:
  assumes admin: "role_of st = Some Admin"
    and req: "map_of (changeRequests st) rid = Some r"
    and pending: "status r = Pending"
    and svc: "map_of (services st) (serviceId r) = Some s"
    and path: "field r = field_path t k"
  shows "\<exists>st' s'. approveChangeRequest now_applied now_reviewed rid st = Inr st'
           \<and> map_of (services st') (serviceId r) = Some s'
           \<and> info_get k (telco_get t (telcos s')) = newValue r
           \<and> lastUpdated s' = now_applied
           \<and> map_of (changeRequests st') rid =
               Some (r\<lparr>status := Approved, reviewedBy := Some (display_or st ''Admin''),
                       reviewedAt := Some now_reviewed\<rparr>)"
  using assms
  by (simp add: approveChangeRequest_def Let_def js_get_Own apply_field_path AList.update_conv'
        info_get_set telco_get_set)

theorem approve_applies_change_witness:
  "role_of (sample_app Admin [(''cr_1'', sample_request Pending ''check_balance'')]) = Some Admin
   \<and> status (sample_request Pending ''check_balance'') = Pending
   \<and> field (sample_request Pending ''check_balance'') = field_path Mtn Code
   \<and> (\<exists>st' s'. approveChangeRequest ''t1'' ''t2'' ''cr_1''
                   (sample_app Admin [(''cr_1'', sample_request Pending ''check_balance'')]) = Inr st'
         \<and> map_of (services st') ''check_balance'' = Some s'
         \<and> code (mtn (telcos s')) = ''*125#''
         \<and> lastUpdated s' = ''t1'')"
proof -
  let ?st = "sample_app Admin [(''cr_1'', sample_request Pending ''check_balance'')]"
  let ?r = "sample_request Pending ''check_balance''"
  have h1: "role_of ?st = Some Admin" by (simp add: role_of_def sample_app_def)
  have h2: "map_of (changeRequests ?st) ''cr_1'' = Some ?r" by (simp add: sample_app_def)
  have h3: "status ?r = Pending" by (simp add: sample_request_def)
  have h4: "map_of (services ?st) (serviceId ?r) = Some sample_entry"
    by (simp add: sample_app_def sample_request_def)
  have h5: "field ?r = field_path Mtn Code" by (simp add: sample_request_def field_path_def)
  have "\<exists>st' s'. approveChangeRequest ''t1'' ''t2'' ''cr_1'' ?st = Inr st'
         \<and> map_of (services st') ''check_balance'' = Some s'
         \<and> code (mtn (telcos s')) = ''*125#''
         \<and> lastUpdated s' = ''t1''"
    using approve_applies_change [OF h1 h2 h3 h4 h5, of "''t1''" "''t2''"]
    by (auto simp add: sample_request_def)
  with h1 h3 h5 show ?thesis by blast
qed

text \<open>
  Claim C3, as stated: approving a pending request whose service is not in the catalog
  leaves the catalog alone but marks the request \<open>approved\<close>. The handler returns at
  \<open>if (!service) return;\<close>, before the request is touched: with the request \<open>cr_1\<close>
  pending on the absent service \<open>gone\<close>, the request is still \<open>pending\<close> afterwards.
\<close>

theorem approve_missing_service_counterexample:
  "role_of (sample_app Admin [(''cr_1'', sample_request Pending ''gone'')]) = Some Admin
   \<and> map_option status
        (map_of (changeRequests (sample_app Admin [(''cr_1'', sample_request Pending ''gone'')]))
           ''cr_1'') = Some Pending
   \<and> map_of (services (sample_app Admin [(''cr_1'', sample_request Pending ''gone'')])) ''gone'' = None
   \<and> approveChangeRequest ''t1'' ''t2'' ''cr_1''
        (sample_app Admin [(''cr_1'', sample_request Pending ''gone'')])
      = Inr (sample_app Admin [(''cr_1'', sample_request Pending ''gone'')])
   \<and> map_option status
        (map_of (changeRequests (projr (approveChangeRequest ''t1'' ''t2'' ''cr_1''
           (sample_app Admin [(''cr_1'', sample_request Pending ''gone'')])))) ''cr_1'')
       = Some Pending"
  by (simp add: approveChangeRequest_def js_get_def inherited_names_def sample_app_def
        sample_request_def role_of_def)

text \<open>
  When the absent service id is an inherited name and the field is one of the eight
  paths, the guard \<open>if (!service) return;\<close> is passed and the handler throws.
\<close>

lemma approve_inherited_service_throws:
  assumes "role_of st = Some Admin"
    and "map_of (changeRequests st) rid = Some r"
    and "status r = Pending"
    and "map_of (services st) (serviceId r) = None"
    and "serviceId r \<in> set inherited_names"
    and "field r = field_path t k"
  shows "approveChangeRequest now_applied now_reviewed rid st = Inl TypeError"
  using assms
  by (simp add: approveChangeRequest_def Let_def js_get_Own js_get_None path_parts_field_path)

text \<open>
  Claim C3, amended. Approving, as admin, a pending request whose target service id is
  absent from the catalog and names no property that every object inherits returns at the
  guard \<open>if (!service) return;\<close> and changes nothing: the catalog and the ledger are
  unchanged, so the request stays \<open>pending\<close>, and no message is shown.
\<close>

theorem approve_missing_service_noop:
  assumes "role_of st = Some Admin"
    and "map_of (changeRequests st) rid = Some r"
    and "status r = Pending"
    and "map_of (services st) (serviceId r) = None"
    and "serviceId r \<notin> set inherited_names"
  shows "approveChangeRequest now_applied now_reviewed rid st = Inr st"
  using assms
  by (simp add: approveChangeRequest_def Let_def js_get_Own js_get_None)

theorem approve_missing_service_noop_witness:
  "role_of (sample_app Admin [(''cr_1'', sample_request Pending ''gone'')]) = Some Admin
   \<and> map_of (services (sample_app Admin [(''cr_1'', sample_request Pending ''gone'')])) ''gone''
       = None
   \<and> ''gone'' \<notin> set inherited_names
   \<and> approveChangeRequest ''t1'' ''t2'' ''cr_1''
        (sample_app Admin [(''cr_1'', sample_request Pending ''gone'')])
      = Inr (sample_app Admin [(''cr_1'', sample_request Pending ''gone'')])"
proof -
  let ?st = "sample_app Admin [(''cr_1'', sample_request Pending ''gone'')]"
  let ?r = "sample_request Pending ''gone''"
  have h1: "role_of ?st = Some Admin" by (simp add: role_of_def sample_app_def)
  have h2: "map_of (changeRequests ?st) ''cr_1'' = Some ?r" by (simp add: sample_app_def)
  have h3: "status ?r = Pending" by (simp add: sample_request_def)
  have h4: "map_of (services ?st) (serviceId ?r) = None"
    by (simp add: sample_app_def sample_request_def)
  have h5: "serviceId ?r \<notin> set inherited_names"
    by (simp add: sample_request_def inherited_names_def)
  have s: "serviceId ?r = ''gone''" by (simp add: sample_request_def)
  from approve_missing_service_noop [OF h1 h2 h3 h4 h5, of "''t1''" "''t2''"]
  have a: "approveChangeRequest ''t1'' ''t2'' ''cr_1'' ?st = Inr ?st" .
  from h1 h4 h5 a show ?thesis unfolding s by (intro conjI)
qed

section \<open>Cancelling\<close>

text \<open>
  Claim C8. \<open>cancelDraftChange\<close> removes the request stored under the given id, whatever
  its status and whoever is logged in (the statement has no condition on either): the
  handler returns, the id is no longer in the ledger, every other id keeps its request,
  and the catalog is unchanged.
\<close>

theorem cancel_removes_any_request:
  "\<exists>st'. cancelDraftChange rid st = Inr st'
     \<and> map_of (changeRequests st') rid = None
     \<and> (\<forall>k. k \<noteq> rid \<longrightarrow> map_of (changeRequests st') k = map_of (changeRequests st) k)
     \<and> services st' = services st"
  by (simp add: cancelDraftChange_def AList.delete_conv')

theorem cancel_removes_any_request_witness:
  "status (sample_request Approved ''check_balance'') = Approved
   \<and> role_of (sample_app (Rep Glo) [(''cr_1'', sample_request Approved ''check_balance'')])
       = Some (Rep Glo)
   \<and> map_of (changeRequests (projr (cancelDraftChange ''cr_1''
        (sample_app (Rep Glo) [(''cr_1'', sample_request Approved ''check_balance'')])))) ''cr_1''
       = None"
  using cancel_removes_any_request
    [of "''cr_1''" "sample_app (Rep Glo) [(''cr_1'', sample_request Approved ''check_balance'')]"]
  by (auto simp add: sample_request_def sample_app_def role_of_def)

section \<open>Transitions whose precondition fails\<close>

text \<open>
  Claim C4, as stated: a \<open>submit\<close>, \<open>recall\<close>, \<open>approve\<close> or \<open>reject\<close> whose
  precondition on the status fails reports an error to the caller. \<open>submitDraftChange\<close>
  on the request \<open>cr_1\<close>, which is \<open>pending\<close>, takes the bare \<open>return\<close>: it returns
  normally (no error), and the state it leaves, messages included, is the state it was
  given.
\<close>

theorem submit_on_pending_counterexample:
  "map_option status (map_of (changeRequests
       (sample_app (Rep Mtn) [(''cr_1'', sample_request Pending ''check_balance'')])) ''cr_1'')
     = Some Pending
   \<and> submitDraftChange ''t1'' ''cr_1''
        (sample_app (Rep Mtn) [(''cr_1'', sample_request Pending ''check_balance'')])
      = Inr (sample_app (Rep Mtn) [(''cr_1'', sample_request Pending ''check_balance'')])
   \<and> \<not> isl (submitDraftChange ''t1'' ''cr_1''
        (sample_app (Rep Mtn) [(''cr_1'', sample_request Pending ''check_balance'')]))"
  by (simp add: submitDraftChange_def js_get_def sample_app_def sample_request_def)

text \<open>
  Claim C4, amended. A \<open>submit\<close> of a request id that is not a \<open>draft\<close> in the ledger
  (absent, or in another status), and a \<open>recall\<close>, \<open>approve\<close> or \<open>reject\<close> of one
  that is not \<open>pending\<close>, returns normally without raising an error and without
  showing a message, and leaves the ledger and the catalog (the whole state) unchanged.
\<close>

theorem transition_violation_is_silent:
  "(map_option status (map_of (changeRequests st) rid) \<noteq> Some Draft
      \<longrightarrow> submitDraftChange now rid st = Inr st)
   \<and> (map_option status (map_of (changeRequests st) rid) \<noteq> Some Pending
      \<longrightarrow> recallPendingChange now rid st = Inr st
        \<and> approveChangeRequest now now' rid st = Inr st
        \<and> rejectChangeRequest now rid cmts st = Inr st)"
  by (auto simp add: submitDraftChange_def recallPendingChange_def approveChangeRequest_def
        rejectChangeRequest_def js_get_def split: option.splits)

theorem transition_violation_is_silent_witness:
  "map_option status (map_of (changeRequests
       (sample_app Admin [(''cr_1'', sample_request Approved ''check_balance'')])) ''cr_1'')
     = Some Approved
   \<and> submitDraftChange ''t1'' ''cr_1''
        (sample_app Admin [(''cr_1'', sample_request Approved ''check_balance'')])
      = Inr (sample_app Admin [(''cr_1'', sample_request Approved ''check_balance'')])
   \<and> approveChangeRequest ''t1'' ''t2'' ''cr_1''
        (sample_app Admin [(''cr_1'', sample_request Approved ''check_balance'')])
      = Inr (sample_app Admin [(''cr_1'', sample_request Approved ''check_balance'')])"
proof -
  let ?st = "sample_app Admin [(''cr_1'', sample_request Approved ''check_balance'')]"
  have h: "map_option status (map_of (changeRequests ?st) ''cr_1'') = Some Approved"
    by (simp add: sample_app_def sample_request_def)
  have d: "map_option status (map_of (changeRequests ?st) ''cr_1'') \<noteq> Some Draft"
    and p: "map_option status (map_of (changeRequests ?st) ''cr_1'') \<noteq> Some Pending"
    by (simp_all add: sample_app_def sample_request_def)
  from transition_violation_is_silent [of ?st "''cr_1''" "''t1''" "''t2''" None] d p h
  show ?thesis by blast
qed


section \<open>Lookup and compare\<close>

text \<open>
  Every outcome of \<open>handleLookup\<close>, by what the catalog holds under the normalised
  service key and by the normalised network key. A service key that is an inherited name
  and not a key of the catalog passes the test \<open>if (!serviceBlob)\<close>.
\<close>

lemma lookup_outcomes:
  "(map_of data (lo (tr s)) = None \<and> lo (tr s) \<notin> set inherited_names
      \<longrightarrow> handleLookup tr lo data (Some s) (Some n) = unknown_service data (Some s))
   \<and> (\<forall>v. map_of data (lo (tr s)) = Some v \<and> \<not> truthy v
      \<longrightarrow> handleLookup tr lo data (Some s) (Some n) = unknown_service data (Some s))
   \<and> (map_of data (lo (tr s)) = None \<and> lo (tr s) \<in> set inherited_names
      \<longrightarrow> handleLookup tr lo data (Some s) (Some n) =
            (if lo (tr n) \<in> set NETWORKS then no_entry (Some s) (Some n)
             else unknown_network (Some n)))
   \<and> (\<forall>v. map_of data (lo (tr s)) = Some v \<and> truthy v \<longrightarrow>
        (lo (tr n) \<notin> set NETWORKS
           \<longrightarrow> handleLookup tr lo data (Some s) (Some n) = unknown_network (Some n))
      \<and> (lo (tr n) \<in> set NETWORKS \<and> truthy_val (get_prop v (lo (tr n))) = None
           \<longrightarrow> handleLookup tr lo data (Some s) (Some n) = no_entry (Some s) (Some n))
      \<and> (\<forall>entry. lo (tr n) \<in> set NETWORKS \<and> truthy_val (get_prop v (lo (tr n))) = Some entry
           \<longrightarrow> handleLookup tr lo data (Some s) (Some n) =
                 \<lparr>status_code = 200,
                  body = json_obj [(''code'', get_prop entry ''code''),
                                   (''explanation'', get_prop entry ''explanation'')]\<rparr>))"
  by (auto simp add: handleLookup_def Let_def normalizeService_def normalizeNetwork_def
        js_get_def truthy_val_def)

lemma lookup_status:
  "status_code (unknown_service data service) = 404"
  "status_code (unknown_network network) = 400"
  "status_code (no_entry service network) = 404"
  by (simp_all add: unknown_service_def unknown_network_def no_entry_def)

text \<open>
  Claim C7 says that an unknown service gets 404. The service \<open>constructor\<close> is unknown
  to every catalog that has no such key, yet with a network outside the fixed set the
  answer is the 400 of the network check: \<open>USSD_DATA[sKey]\<close> finds the inherited
  property and the test \<open>if (!serviceBlob)\<close> lets it through. This holds for any \<open>trim\<close>
  and \<open>toLowerCase\<close> that leave the two words as they are.
\<close>

theorem lookup_constructor_is_400:
  assumes "lo (tr ''constructor'') = ''constructor''"
    and "lo (tr ''xx'') = ''xx''"
    and "map_of data ''constructor'' = None"
  shows "handleLookup tr lo data (Some ''constructor'') (Some ''xx'')
           = unknown_network (Some ''xx'')
         \<and> status_code (handleLookup tr lo data (Some ''constructor'') (Some ''xx'')) = 400"
  using assms
  by (simp add: handleLookup_def Let_def normalizeService_def normalizeNetwork_def
        js_get_def inherited_names_def NETWORKS_def unknown_network_def)

theorem lookup_constructor_is_400_witness:
  "map_of sample_data ''constructor'' = None
   \<and> status_code (handleLookup as_is as_is sample_data (Some ''constructor'') (Some ''xx'')) = 400"
proof -
  have h1: "as_is (as_is ''constructor'') = ''constructor''" and h2: "as_is (as_is ''xx'') = ''xx''"
    by (simp_all add: as_is_def)
  have h3: "map_of sample_data ''constructor'' = None" by (simp add: sample_data_def)
  from lookup_constructor_is_400 [of as_is as_is sample_data, OF h1 h2 h3] h3
  show ?thesis by blast
qed

text \<open>
  Claim C9 says that an unknown service with a network outside the fixed set gets the 404
  of the unknown service. When the normalised service key is an inherited name that the
  catalog does not hold, the service is unknown and the answer is the 400 of the network.
\<close>

theorem lookup_inherited_service_bad_network:
  assumes "map_of data (normalizeService tr lo service) = None"
    and "normalizeService tr lo service \<in> set inherited_names"
    and "normalizeNetwork tr lo network \<notin> set NETWORKS"
  shows "handleLookup tr lo data service network = unknown_network network
         \<and> status_code (handleLookup tr lo data service network) = 400"
  using assms
  by (simp add: handleLookup_def Let_def js_get_def unknown_network_def)

theorem lookup_inherited_service_bad_network_witness:
  "map_of sample_data (normalizeService as_is as_is (Some ''__proto__'')) = None
   \<and> normalizeNetwork as_is as_is (Some ''vodafone'') \<notin> set NETWORKS
   \<and> status_code (handleLookup as_is as_is sample_data (Some ''__proto__'') (Some ''vodafone''))
       = 400"
proof -
  have h1: "map_of sample_data (normalizeService as_is as_is (Some ''__proto__'')) = None"
    by (simp add: normalizeService_def as_is_def sample_data_def)
  have h2: "normalizeService as_is as_is (Some ''__proto__'') \<in> set inherited_names"
    by (simp add: normalizeService_def as_is_def inherited_names_def)
  have h3: "normalizeNetwork as_is as_is (Some ''vodafone'') \<notin> set NETWORKS"
    by (simp add: normalizeNetwork_def as_is_def NETWORKS_def)
  from lookup_inherited_service_bad_network [OF h1 h2 h3] h1 h3 show ?thesis by blast
qed

lemma code_or_null_cases:
  assumes "get_prop blob n = None \<or> get_prop blob n = Some JNull
           \<or> (\<exists>r. get_prop blob n = Some r \<and> get_prop r ''code'' = Some (JStr []))"
  shows "code_or_null (Own blob) n = JNull"
  using assms
  by (auto simp add: code_or_null_def truthy_val_def split: option.splits json.splits)

text \<open>
  Claim C10. For a known service, \<open>handleCompare\<close> answers 200 and gives \<open>null\<close> for a
  network whose record is missing (absent or \<open>null\<close>) and also for one whose \<open>code\<close>
  is the empty string: the two cases give the same result.
\<close>

theorem compare_empty_code_is_null:
  assumes known: "truthy_val (map_of data (normalizeService tr lo service)) = Some blob"
    and net: "n \<in> set NETWORKS"
    and empty: "get_prop blob n = None \<or> get_prop blob n = Some JNull
                \<or> (\<exists>r. get_prop blob n = Some r \<and> get_prop r ''code'' = Some (JStr []))"
  shows "status_code (handleCompare tr lo data service) = 200
         \<and> get_prop (body (handleCompare tr lo data service)) n = Some JNull"
proof -
  from known have own: "js_get data (normalizeService tr lo service) = Own blob" and t: "truthy blob"
    by (auto simp add: truthy_val_def js_get_def split: option.splits if_splits)
  with net code_or_null_cases [OF empty] show ?thesis
    by (auto simp add: handleCompare_def Let_def NETWORKS_def)
qed

theorem compare_empty_code_is_null_witness:
  "get_prop (the (map_of sample_data ''check_balance'')) ''telecel''
     = Some (JObj [(''code'', JStr []), (''explanation'', JStr ''none yet'')])
   \<and> get_prop (the (map_of sample_data ''check_balance'')) ''airteltigo'' = None
   \<and> get_prop (body (handleCompare as_is as_is sample_data (Some ''check_balance''))) ''telecel''
       = Some JNull
   \<and> get_prop (body (handleCompare as_is as_is sample_data (Some ''check_balance''))) ''airteltigo''
       = Some JNull"
proof -
  let ?blob = "the (map_of sample_data ''check_balance'')"
  have k: "truthy_val (map_of sample_data (normalizeService as_is as_is (Some ''check_balance'')))
             = Some ?blob"
    by (simp add: sample_data_def normalizeService_def as_is_def truthy_val_def)
  have t: "get_prop ?blob ''telecel''
             = Some (JObj [(''code'', JStr []), (''explanation'', JStr ''none yet'')])"
    by (simp add: sample_data_def)
  have a: "get_prop ?blob ''airteltigo'' = None"
    by (simp add: sample_data_def)
  have n1: "''telecel'' \<in> set NETWORKS" and n2: "''airteltigo'' \<in> set NETWORKS"
    by (simp_all add: NETWORKS_def)
  have e1: "get_prop ?blob ''telecel'' = None \<or> get_prop ?blob ''telecel'' = Some JNull
            \<or> (\<exists>r. get_prop ?blob ''telecel'' = Some r \<and> get_prop r ''code'' = Some (JStr []))"
    using t by simp
  have e2: "get_prop ?blob ''airteltigo'' = None \<or> get_prop ?blob ''airteltigo'' = Some JNull
            \<or> (\<exists>r. get_prop ?blob ''airteltigo'' = Some r \<and> get_prop r ''code'' = Some (JStr []))"
    using a by simp
  from compare_empty_code_is_null [OF k n1 e1] compare_empty_code_is_null [OF k n2 e2] t a
  show ?thesis by blast
qed


section \<open>The ledger invariant\<close>


lemma count_for_Nil: "count_for s sid fld [] = 0"
  by (simp add: count_for_def)

lemma count_for_Cons:
  "count_for s sid fld ((k, r) # l) =
     (if status r = s \<and> serviceId r = sid \<and> field r = fld then 1 else 0) + count_for s sid fld l"
  by (simp add: count_for_def)

lemma count_update_le:
  "count_for s sid fld (AList.update k r l)
     \<le> count_for s sid fld l + (if status r = s \<and> serviceId r = sid \<and> field r = fld then 1 else 0)"
  by (induction l) (auto simp add: count_for_Nil count_for_Cons)

lemma count_update_same:
  assumes "map_of l k = Some r0"
    and "(status r0 = s \<and> serviceId r0 = sid \<and> field r0 = fld)
           = (status r = s \<and> serviceId r = sid \<and> field r = fld)"
  shows "count_for s sid fld (AList.update k r l) = count_for s sid fld l"
  using assms by (induction l) (auto simp add: count_for_Cons split: if_splits)

lemma count_delete_le: "count_for s sid fld (AList.delete k l) \<le> count_for s sid fld l"
  by (induction l) (auto simp add: count_for_Nil count_for_Cons)

lemma ledger_wf_update:
  assumes "ledger_wf l" and "req_id r = k"
  shows "ledger_wf (AList.update k r l)"
proof -
  have "list_all (\<lambda>(k, r). req_id r = k) (AList.update k r l)"
    using assms by (induction l) (auto simp add: ledger_wf_def)
  with assms show ?thesis by (simp add: ledger_wf_def distinct_update)
qed

lemma ledger_wf_delete:
  assumes "ledger_wf l"
  shows "ledger_wf (AList.delete k l)"
proof -
  from assms have "distinct (map fst (AList.delete k l))"
    by (simp add: ledger_wf_def distinct_delete)
  moreover from assms have "list_all (\<lambda>(k, r). req_id r = k) (AList.delete k l)"
    by (auto simp add: ledger_wf_def AList.delete_eq list_all_iff)
  ultimately show ?thesis by (simp add: ledger_wf_def)
qed

lemma ledger_wf_lookup:
  assumes "ledger_wf l" and "map_of l k = Some r"
  shows "req_id r = k"
  using assms by (auto simp add: ledger_wf_def list_all_iff dest: map_of_SomeD)

lemma ledger_wf_member:
  assumes "ledger_wf l" and "r \<in> set (map snd l)"
  shows "map_of l (req_id r) = Some r"
proof -
  from assms(2) obtain k where "(k, r) \<in> set l" by auto
  with assms(1) show ?thesis by (auto simp add: ledger_wf_def list_all_iff)
qed

lemma find_None_count:
  assumes "List.find (\<lambda>req. serviceId req = sid \<and> field req = fld \<and> status req = s) (map snd l) = None"
  shows "count_for s sid fld l = 0"
  using assms by (auto simp add: count_for_def find_None_iff filter_empty_conv)

lemma setTelcoField_inv:
  assumes "ledger_inv st" and "setTelcoField now fresh ident telco key val st = Inr st'"
  shows "ledger_inv st'"
proof -
  let ?l = "changeRequests st"
  let ?P = "\<lambda>req. serviceId req = ident \<and> field req = field_path telco key \<and> status req = Draft"
  from assms(1) have wf: "ledger_wf ?l" and one: "\<And>sid fld. count_for Draft sid fld ?l \<le> 1"
    by (simp_all add: ledger_inv_def)
  show ?thesis
  proof (cases "changeRequests st' = ?l")
    case True
    with assms(1) show ?thesis by (simp add: ledger_inv_def)
  next
    case False
    show ?thesis
    proof (cases "List.find ?P (map snd ?l)")
      case None
      let ?r = "\<lparr>req_id = fresh, serviceId = ident, field = field_path telco key,
                 oldValue = info_get key (telco_get telco
                    (telcos (the (map_of (services st) ident)))),
                 newValue = val, requestedBy = display_or st ''Unknown User'',
                 requestedAt = now, status = Draft,
                 reviewedBy = None, reviewedAt = None, comments = None\<rparr>"
      from False assms(2) None have l': "changeRequests st' = AList.update fresh ?r ?l"
        by (auto simp add: setTelcoField_def Let_def js_get_def split: if_splits option.splits)
      have zero: "count_for Draft ident (field_path telco key) ?l = 0"
        using None by (rule find_None_count)
      have "count_for Draft sid fld (AList.update fresh ?r ?l) \<le> 1" for sid fld
      proof (cases "sid = ident \<and> fld = field_path telco key")
        case True
        with count_update_le [of Draft sid fld fresh ?r ?l] zero show ?thesis by simp
      next
        case False
        with count_update_le [of Draft sid fld fresh ?r ?l] one [of sid fld] show ?thesis
          by auto
      qed
      moreover have "ledger_wf (AList.update fresh ?r ?l)"
        using wf by (rule ledger_wf_update) simp
      ultimately show ?thesis by (simp add: ledger_inv_def l')
    next
      case (Some d)
      let ?d = "d\<lparr>newValue := val, requestedAt := now\<rparr>"
      from False assms(2) Some have l': "changeRequests st' = AList.update (req_id d) ?d ?l"
        by (auto simp add: setTelcoField_def Let_def js_get_def split: if_splits option.splits)
      from Some have "d \<in> set (map snd ?l)" by (auto simp add: find_Some_iff)
      with wf have look: "map_of ?l (req_id d) = Some d" by (rule ledger_wf_member)
      have "count_for Draft sid fld (AList.update (req_id d) ?d ?l) = count_for Draft sid fld ?l"
        for sid fld
        using look by (rule count_update_same) simp
      moreover have "ledger_wf (AList.update (req_id d) ?d ?l)"
        using wf by (rule ledger_wf_update) simp
      ultimately show ?thesis using one by (simp add: ledger_inv_def l')
    qed
  qed
qed

lemma update_nondraft_inv:
  assumes "ledger_inv st" and "map_of (changeRequests st) k = Some r0"
    and "req_id r = req_id r0" and "status r \<noteq> Draft"
    and "changeRequests st' = AList.update k r (changeRequests st)"
  shows "ledger_inv st'"
proof -
  from assms(1) have wf: "ledger_wf (changeRequests st)"
    and one: "\<And>sid fld. count_for Draft sid fld (changeRequests st) \<le> 1"
    by (simp_all add: ledger_inv_def)
  from wf assms(2) have "req_id r0 = k" by (rule ledger_wf_lookup)
  with assms(3) have "req_id r = k" by simp
  with wf have "ledger_wf (AList.update k r (changeRequests st))" by (rule ledger_wf_update)
  moreover have "count_for Draft sid fld (AList.update k r (changeRequests st)) \<le> 1" for sid fld
    using count_update_le [of Draft sid fld k r "changeRequests st"] one [of sid fld] assms(4)
    by simp
  ultimately show ?thesis by (simp add: ledger_inv_def assms(5))
qed

lemma approve_ledger:
  assumes "approveChangeRequest n1 n2 rid st = Inr st'"
  shows "st' = st \<or> (\<exists>r0. map_of (changeRequests st) rid = Some r0
      \<and> changeRequests st' = AList.update rid
            (r0\<lparr>status := Approved, reviewedBy := Some (display_or st ''Admin''),
                reviewedAt := Some n2\<rparr>) (changeRequests st))"
proof (cases "role_of st = Some Admin")
  case False
  with assms show ?thesis by (simp add: approveChangeRequest_def)
next
  case admin: True
  show ?thesis
  proof (cases "map_of (changeRequests st) rid")
    case None
    with assms admin show ?thesis
      by (simp add: approveChangeRequest_def js_get_None split: if_splits)
  next
    case (Some r)
    note own = js_get_Own [OF Some]
    show ?thesis
    proof (cases "status r = Pending")
      case False
      with assms admin own show ?thesis by (simp add: approveChangeRequest_def)
    next
      case pending: True
      show ?thesis
      proof (cases "js_get (services st) (serviceId r)")
        case Absent
        with assms admin own pending show ?thesis
          by (simp add: approveChangeRequest_def Let_def)
      next
        case Inherited
        with assms admin own pending Some show ?thesis
          by (cases "path_parts (field r)") (auto simp add: approveChangeRequest_def Let_def)
      next
        case (Own s0)
        with assms admin own pending Some show ?thesis
          by (cases "apply_field n1 (field r) (newValue r) s0")
            (auto simp add: approveChangeRequest_def Let_def)
      qed
    qed
  qed
qed

lemma submit_ledger:
  assumes "submitDraftChange now rid st = Inr st'"
  shows "st' = st \<or> (\<exists>r0. map_of (changeRequests st) rid = Some r0
      \<and> changeRequests st' = AList.update rid
            (r0\<lparr>status := Pending, requestedAt := now\<rparr>) (changeRequests st))"
proof (cases "map_of (changeRequests st) rid")
  case None
  with assms show ?thesis by (simp add: submitDraftChange_def js_get_None split: if_splits)
next
  case (Some r)
  note own = js_get_Own [OF Some]
  from assms own Some show ?thesis
    by (cases "status r = Draft") (auto simp add: submitDraftChange_def Let_def)
qed

lemma reject_ledger:
  assumes "rejectChangeRequest now rid cmts st = Inr st'"
  shows "st' = st \<or> (\<exists>r0. map_of (changeRequests st) rid = Some r0
      \<and> changeRequests st' = AList.update rid
            (r0\<lparr>status := Rejected, reviewedBy := Some (display_or st ''Admin''),
                reviewedAt := Some now, comments := cmts\<rparr>) (changeRequests st))"
proof (cases "role_of st = Some Admin")
  case False
  with assms show ?thesis by (simp add: rejectChangeRequest_def)
next
  case admin: True
  show ?thesis
  proof (cases "map_of (changeRequests st) rid")
    case None
    with assms admin show ?thesis by (simp add: rejectChangeRequest_def js_get_None split: if_splits)
  next
    case (Some r)
    note own = js_get_Own [OF Some]
    from assms admin own Some show ?thesis
      by (cases "status r = Pending") (auto simp add: rejectChangeRequest_def Let_def)
  qed
qed

lemma nondraft_step:
  assumes inv: "ledger_inv st"
    and eff: "st' = st \<or> (\<exists>r0. map_of (changeRequests st) rid = Some r0
      \<and> changeRequests st' = AList.update rid (f r0) (changeRequests st))"
    and keep: "\<And>r0. req_id (f r0) = req_id r0" "\<And>r0. status (f r0) \<noteq> Draft"
  shows "ledger_inv st'"
  using eff
proof (elim disjE exE conjE)
  assume "st' = st"
  with inv show ?thesis by simp
next
  fix r0
  assume a: "map_of (changeRequests st) rid = Some r0"
    and b: "changeRequests st' = AList.update rid (f r0) (changeRequests st)"
  show ?thesis by (rule update_nondraft_inv [OF inv a keep b])
qed

lemma handler_inv:
  assumes "ledger_inv st" and "\<not> is_recall op" and "handler op st = Inr st'"
  shows "ledger_inv st'"
proof (cases op)
  case (OpSetTelcoField now fresh ident telco key val)
  with assms(3) have "setTelcoField now fresh ident telco key val st = Inr st'" by simp
  with assms(1) show ?thesis by (rule setTelcoField_inv)
next
  case (OpSubmit now rid)
  with assms(3) have "submitDraftChange now rid st = Inr st'" by simp
  from nondraft_step [OF assms(1) submit_ledger [OF this]] show ?thesis by simp
next
  case (OpRecall now rid)
  with assms(2) show ?thesis by simp
next
  case (OpApprove n1 n2 rid)
  with assms(3) have "approveChangeRequest n1 n2 rid st = Inr st'" by simp
  from nondraft_step [OF assms(1) approve_ledger [OF this]] show ?thesis by simp
next
  case (OpReject now rid cmts)
  with assms(3) have "rejectChangeRequest now rid cmts st = Inr st'" by simp
  from nondraft_step [OF assms(1) reject_ledger [OF this]] show ?thesis by simp
next
  case (OpCancel rid)
  with assms(3) have l': "changeRequests st' = AList.delete rid (changeRequests st)"
    by (auto simp add: cancelDraftChange_def)
  have "count_for Draft sid fld (AList.delete rid (changeRequests st)) \<le> 1" for sid fld
    using count_delete_le [of Draft sid fld rid "changeRequests st"] assms(1)
    by (auto simp add: ledger_inv_def intro: order_trans)
  with l' assms(1) show ?thesis by (simp add: ledger_inv_def ledger_wf_delete)
next
  case (OpLogin sess)
  with assms(3) have "changeRequests st' = changeRequests st" by auto
  with assms(1) show ?thesis by (simp add: ledger_inv_def)
qed

lemma step_inv:
  assumes "ledger_inv st" and "\<not> is_recall op"
  shows "ledger_inv (step op st)"
proof (cases "handler op st")
  case (Inl e)
  with assms(1) show ?thesis by (simp add: step_def settle_def)
next
  case (Inr st')
  have "ledger_inv st'" by (rule handler_inv [OF assms(1) assms(2) Inr])
  with Inr show ?thesis by (simp add: step_def settle_def)
qed

lemma run_inv:
  assumes "ledger_inv st" and "\<forall>op \<in> set ops. \<not> is_recall op"
  shows "ledger_inv (run ops st)"
  using assms
proof (induction ops arbitrary: st)
  case Nil
  then show ?case by simp
next
  case (Cons op ops)
  from Cons.prems have "ledger_inv (step op st)" by (simp add: step_inv)
  with Cons.IH [of "step op st"] Cons.prems(2) show ?case by simp
qed

lemmas handler_defs = setTelcoField_def submitDraftChange_def recallPendingChange_def
  approveChangeRequest_def rejectChangeRequest_def cancelDraftChange_def
  role_of_def display_or_def field_path_def Let_def js_get_def step_def settle_def

text \<open>
  Claim C2, as stated: in every reachable ledger each (service, field) pair has at most one
  \<open>draft\<close> and at most one \<open>pending\<close> request. Starting from the empty ledger, a
  representative who edits a field, submits, edits the same field again and submits again
  has two \<open>pending\<close> requests for it (\<open>submitDraftChange\<close> does not look for another
  pending request, nor does \<open>setTelcoField\<close>); recalling the first request instead of
  the second submit gives two \<open>draft\<close>s.
\<close>

theorem ledger_invariant_counterexample:
  "count_for Pending ''check_balance'' ''telcos.mtn.code''
        (changeRequests (run resubmit_ops (sample_app (Rep Mtn) []))) = 2
   \<and> count_for Draft ''check_balance'' ''telcos.mtn.code''
        (changeRequests (run recall_ops (sample_app (Rep Mtn) []))) = 2"
  by (simp add: resubmit_ops_def recall_ops_def sample_app_def sample_entry_def handler_defs
        count_for_def)

lemma count_pos_find:
  assumes "count_for s sid fld l \<noteq> 0"
  shows "\<exists>d. List.find (\<lambda>req. serviceId req = sid \<and> field req = fld \<and> status req = s) (map snd l)
           = Some d \<and> d \<in> set (map snd l) \<and> serviceId d = sid \<and> field d = fld \<and> status d = s"
proof (cases "List.find (\<lambda>req. serviceId req = sid \<and> field req = fld \<and> status req = s) (map snd l)")
  case None
  then have "count_for s sid fld l = 0" by (rule find_None_count)
  with assms show ?thesis by simp
next
  case (Some d)
  then show ?thesis by (auto simp add: find_Some_iff)
qed

lemma edit_existing_draft:
  assumes wf: "ledger_wf (changeRequests st)"
    and rep: "role_of st = Some (Rep telco)"
    and svc: "map_of (services st) ident \<noteq> None"
    and has: "count_for Draft ident (field_path telco key) (changeRequests st) \<noteq> 0"
  shows "\<exists>st' k d. setTelcoField now fresh ident telco key val st = Inr st'
           \<and> map fst (changeRequests st') = map fst (changeRequests st)
           \<and> map_of (changeRequests st) k = Some d
           \<and> status d = Draft \<and> serviceId d = ident \<and> field d = field_path telco key
           \<and> map_of (changeRequests st') k = Some (d\<lparr>newValue := val, requestedAt := now\<rparr>)
           \<and> (\<forall>k'. k' \<noteq> k \<longrightarrow> map_of (changeRequests st') k' = map_of (changeRequests st) k')
           \<and> services st' = services st"
proof -
  let ?l = "changeRequests st"
  from count_pos_find [OF has] obtain d where
    f: "List.find (\<lambda>req. serviceId req = ident \<and> field req = field_path telco key
                          \<and> status req = Draft) (map snd ?l) = Some d"
    and mem: "d \<in> set (map snd ?l)"
    and d: "serviceId d = ident" "field d = field_path telco key" "status d = Draft"
    by blast
  from wf mem have look: "map_of ?l (req_id d) = Some d" by (rule ledger_wf_member)
  then have "req_id d \<in> fst ` set ?l" by (auto dest: map_of_SomeD intro: rev_image_eqI)
  then have keys: "map fst (AList.update (req_id d) (d\<lparr>newValue := val, requestedAt := now\<rparr>) ?l)
                    = map fst ?l"
    by (simp add: update_keys)
  from rep svc f have
    "setTelcoField now fresh ident telco key val st =
       Inr (st\<lparr>changeRequests := AList.update (req_id d) (d\<lparr>newValue := val, requestedAt := now\<rparr>) ?l\<rparr>)"
    by (auto simp add: setTelcoField_def Let_def js_get_def)
  with keys look d show ?thesis
    by (auto simp add: AList.update_conv')
qed

text \<open>
  Claim C2, amended. From a well-formed ledger with at most one draft per (service, field)
  pair (the empty ledger is one), every sequence of create-or-update-draft, submit,
  approve, reject and cancel operations (and logins) leaves a well-formed ledger with at
  most one draft per pair; and an edit by the network's representative of a field that
  already has a draft creates no request: the ledger keeps its keys, that draft gets the
  new value and time, and every other request and the catalog are unchanged. Nothing is
  stated about the number of pending requests, nor about \<open>recall\<close>.
\<close>

theorem one_draft_per_field:
  assumes wf: "ledger_wf (changeRequests st)"
    and one: "\<forall>sid fld. count_for Draft sid fld (changeRequests st) \<le> 1"
  shows "(\<forall>ops. (\<forall>op \<in> set ops. \<not> is_recall op) \<longrightarrow>
            ledger_wf (changeRequests (run ops st))
            \<and> (\<forall>sid fld. count_for Draft sid fld (changeRequests (run ops st)) \<le> 1))
       \<and> (role_of st = Some (Rep telco) \<and> map_of (services st) ident \<noteq> None
            \<and> count_for Draft ident (field_path telco key) (changeRequests st) = 1 \<longrightarrow>
          (\<exists>st' k d. setTelcoField now fresh ident telco key val st = Inr st'
             \<and> map fst (changeRequests st') = map fst (changeRequests st)
             \<and> map_of (changeRequests st) k = Some d
             \<and> status d = Draft \<and> serviceId d = ident \<and> field d = field_path telco key
             \<and> map_of (changeRequests st') k = Some (d\<lparr>newValue := val, requestedAt := now\<rparr>)
             \<and> (\<forall>k'. k' \<noteq> k \<longrightarrow> map_of (changeRequests st') k' = map_of (changeRequests st) k')
             \<and> services st' = services st))"
proof (intro conjI allI impI)
  fix ops
  assume nr: "\<forall>op \<in> set ops. \<not> is_recall op"
  from wf one have "ledger_inv st" by (simp add: ledger_inv_def)
  then have inv: "ledger_inv (run ops st)" using nr by (rule run_inv)
  then show "ledger_wf (changeRequests (run ops st))" by (simp add: ledger_inv_def)
  fix sid fld
  from inv show "count_for Draft sid fld (changeRequests (run ops st)) \<le> 1"
    by (simp add: ledger_inv_def)
next
  assume a: "role_of st = Some (Rep telco) \<and> map_of (services st) ident \<noteq> None
            \<and> count_for Draft ident (field_path telco key) (changeRequests st) = 1"
  then have "count_for Draft ident (field_path telco key) (changeRequests st) \<noteq> 0" by simp
  with wf a show "\<exists>st' k d. setTelcoField now fresh ident telco key val st = Inr st'
             \<and> map fst (changeRequests st') = map fst (changeRequests st)
             \<and> map_of (changeRequests st) k = Some d
             \<and> status d = Draft \<and> serviceId d = ident \<and> field d = field_path telco key
             \<and> map_of (changeRequests st') k = Some (d\<lparr>newValue := val, requestedAt := now\<rparr>)
             \<and> (\<forall>k'. k' \<noteq> k \<longrightarrow> map_of (changeRequests st') k' = map_of (changeRequests st) k')
             \<and> services st' = services st"
    by (intro edit_existing_draft) simp_all
qed

theorem one_draft_per_field_witness:
  "ledger_wf (changeRequests (sample_app (Rep Mtn) []))
   \<and> list_all (\<lambda>op. \<not> is_recall op) edit_ops
   \<and> count_for Draft ''check_balance'' ''telcos.mtn.code''
         (changeRequests (run edit_ops (sample_app (Rep Mtn) []))) \<le> 1
   \<and> map fst (changeRequests (run edit_ops (sample_app (Rep Mtn) []))) = [''cr_a'', ''cr_c'']
   \<and> map (\<lambda>(k, r). (status r, newValue r)) (changeRequests (run edit_ops (sample_app (Rep Mtn) [])))
       = [(Pending, ''*126#''), (Draft, ''*127#'')]"
proof -
  let ?st = "sample_app (Rep Mtn) []"
  have wf: "ledger_wf (changeRequests ?st)" by (simp add: sample_app_def ledger_wf_def)
  have one: "\<forall>sid fld. count_for Draft sid fld (changeRequests ?st) \<le> 1"
    by (simp add: sample_app_def count_for_def)
  have nr: "\<forall>op \<in> set edit_ops. \<not> is_recall op" by (simp add: edit_ops_def)
  from one_draft_per_field [OF wf one] nr
  have c: "count_for Draft ''check_balance'' ''telcos.mtn.code''
             (changeRequests (run edit_ops ?st)) \<le> 1"
    by blast
  have v: "map fst (changeRequests (run edit_ops ?st)) = [''cr_a'', ''cr_c'']
     \<and> map (\<lambda>(k, r). (status r, newValue r)) (changeRequests (run edit_ops ?st))
             = [(Pending, ''*126#''), (Draft, ''*127#'')]"
    by (simp add: edit_ops_def sample_app_def sample_entry_def handler_defs)
  from nr have "list_all (\<lambda>op. \<not> is_recall op) edit_ops" by (simp add: list_all_iff)
  with wf c v show ?thesis by (intro conjI) simp_all
qed


section \<open>Export and import round trip\<close>

lemma obj_assign_fresh:
  "k \<noteq> ''__proto__'' \<Longrightarrow> k \<notin> fst ` set al \<Longrightarrow> obj_assign k v al = al @ [(k, v)]"
  unfolding obj_assign_def by (induction al) auto

lemma set_update_subset: "set (AList.update k v al) \<subseteq> insert (k, v) (set al)"
  by (induction al) auto

lemma set_obj_assign_subset: "set (obj_assign k v al) \<subseteq> insert (k, v) (set al)"
  using set_update_subset [of k v al] by (auto simp add: obj_assign_def)

lemma obj_assign_keys:
  "fst ` set (obj_assign k v al) = (if k = ''__proto__'' then fst ` set al else insert k (fst ` set al))"
  by (simp add: obj_assign_def dom_update)

lemma obj_assign_distinct:
  "distinct (map fst al) \<Longrightarrow> distinct (map fst (obj_assign k v al))"
  by (simp add: obj_assign_def distinct_update)

lemma export_loop_append: "export_loop (xs @ ys) out = export_loop ys (export_loop xs out)"
  by (induction xs arbitrary: out) simp_all

lemma export_loop_keys:
  "fst ` set (export_loop ss out) \<subseteq> fst ` set out \<union> (service_id ` set ss - {''__proto__''})"
proof (induction ss arbitrary: out)
  case Nil
  then show ?case by simp
next
  case (Cons s ss)
  show ?case
  proof (cases "active s")
    case True
    from Cons.IH [of "obj_assign (service_id s) (export_entry s) out"]
    show ?thesis using True by (auto simp add: obj_assign_keys split: if_splits)
  next
    case False
    with Cons.IH [of out] show ?thesis by auto
  qed
qed

lemma export_loop_values:
  "snd ` set (export_loop ss out) \<subseteq> snd ` set out \<union> range export_entry"
proof (induction ss arbitrary: out)
  case Nil
  then show ?case by simp
next
  case (Cons s ss)
  show ?case
  proof (cases "active s")
    case True
    have "snd ` set (obj_assign (service_id s) (export_entry s) out)
            \<subseteq> snd ` set out \<union> range export_entry"
      using set_obj_assign_subset [of "service_id s" "export_entry s" out] by auto
    with Cons.IH [of "obj_assign (service_id s) (export_entry s) out"] True
    show ?thesis by auto
  next
    case False
    with Cons.IH [of out] show ?thesis by simp
  qed
qed

lemma export_loop_distinct:
  "distinct (map fst out) \<Longrightarrow> distinct (map fst (export_loop ss out))"
  by (induction ss arbitrary: out) (simp_all add: obj_assign_distinct)

lemma export_entry_shape:
  "truthy (export_entry s)" "typeof_object (export_entry s)"
  "get_prop (export_entry s) ''service_name'' = Some (JStr (service_name s))"
  "get_prop (export_entry s) ''description'' = None"
  by (simp_all add: export_entry_def)

lemma norm_telco_export:
  "norm_telco (export_entry s) ''mtn'' = Inr (mtn (telcos s))"
  "norm_telco (export_entry s) ''telecel'' = Inr (telecel (telcos s))"
  "norm_telco (export_entry s) ''airteltigo'' = Inr (airteltigo (telcos s))"
  "norm_telco (export_entry s) ''glo'' = Inr (glo (telcos s))"
  by (simp_all add: norm_telco_def export_entry_def info_json_def truthy_val_def)

lemma norm_entry_export:
  "norm_entry now k (export_entry s) =
     Inr \<lparr>service_id = k, service_name = service_name s, description = None,
          telcos = telcos s, active = True, lastUpdated = now\<rparr>"
  by (simp add: norm_entry_def norm_description_def export_entry_shape norm_telco_export
        truthy_val_def)

lemma export_norm_entry:
  "export_entry \<lparr>service_id = k, service_name = service_name s, description = None,
          telcos = telcos s, active = True, lastUpdated = now\<rparr> = export_entry s"
  by (simp add: export_entry_def)

lemma roundtrip_loop:
  assumes "distinct (map fst X)"
    and "fst ` set X \<inter> fst ` set R = {}"
    and "snd ` set X \<subseteq> range export_entry"
    and "list_all (\<lambda>(k, e). service_id e = k) R"
    and "''__proto__'' \<notin> fst ` set X"
  shows "\<exists>C'. normalize_entries clock i X R = Inr C'
           \<and> export_loop (map snd C') [] = export_loop (map snd R) [] @ X"
  using assms
proof (induction X arbitrary: R i)
  case Nil
  then show ?case by simp
next
  case (Cons x X)
  obtain k v where x: "x = (k, v)" by (cases x)
  from Cons.prems(3) x obtain s where v: "v = export_entry s" by auto
  let ?e = "\<lparr>service_id = k, service_name = service_name s, description = None,
          telcos = telcos s, active = True, lastUpdated = clock i\<rparr>"
  let ?R = "R @ [(k, ?e)]"
  from Cons.prems(2) x have fresh: "k \<notin> fst ` set R" by auto
  from Cons.prems(5) x have np: "k \<noteq> ''__proto__''" by auto
  have step: "normalize_entries clock i (x # X) R = normalize_entries clock (Suc i) X ?R"
    using fresh np by (simp add: x v export_entry_shape norm_entry_export obj_assign_fresh)
  have ev: "export_entry ?e = v"
    unfolding v by (rule export_norm_entry)
  have "fst ` set (export_loop (map snd R) []) \<subseteq> service_id ` snd ` set R"
    using export_loop_keys [of "map snd R" "[]"] by auto
  also have "\<dots> \<subseteq> fst ` set R"
    using Cons.prems(4) by (force simp add: list_all_iff)
  finally have out_fresh: "k \<notin> fst ` set (export_loop (map snd R) [])"
    using fresh by auto
  have one: "export_loop (map snd ?R) [] = export_loop (map snd R) [] @ [(k, v)]"
    using ev out_fresh np by (simp add: export_loop_append obj_assign_fresh)
  have "\<exists>C'. normalize_entries clock (Suc i) X ?R = Inr C'
           \<and> export_loop (map snd C') [] = export_loop (map snd ?R) [] @ X"
  proof (rule Cons.IH)
    from Cons.prems(1) show "distinct (map fst X)" by simp
    from Cons.prems(1,2) x show "fst ` set X \<inter> fst ` set ?R = {}" by auto
    from Cons.prems(3) show "snd ` set X \<subseteq> range export_entry" by auto
    from Cons.prems(4) show "list_all (\<lambda>(k, e). service_id e = k) ?R" by simp
    from Cons.prems(5) show "''__proto__'' \<notin> fst ` set X" by simp
  qed
  then obtain C' where "normalize_entries clock (Suc i) X ?R = Inr C'"
    and "export_loop (map snd C') [] = export_loop (map snd ?R) [] @ X"
    by blast
  with one step x show ?case by simp
qed

text \<open>The export of a catalog that stores its services under their ids.\<close>

lemma export_loop_wf:
  assumes "distinct (map fst C)"
    and "list_all (\<lambda>(k, e). service_id e = k) C"
    and "''__proto__'' \<notin> set (map fst C)"
    and "fst ` set C \<inter> fst ` set out = {}"
  shows "export_loop (map snd C) out
           = out @ map (\<lambda>(k, e). (k, export_entry e)) (filter (\<lambda>(k, e). active e) C)"
  using assms
proof (induction C arbitrary: out)
  case Nil
  then show ?case by simp
next
  case (Cons x C)
  obtain k e where x: "x = (k, e)" by (cases x)
  from Cons.prems(2) x have id: "service_id e = k" by simp
  from Cons.prems(3) x have np: "k \<noteq> ''__proto__''" by auto
  from Cons.prems(4) x have fresh: "k \<notin> fst ` set out" by auto
  show ?case
  proof (cases "active e")
    case False
    have "export_loop (map snd C) out
            = out @ map (\<lambda>(k, e). (k, export_entry e)) (filter (\<lambda>(k, e). active e) C)"
    proof (rule Cons.IH)
      from Cons.prems(1) show "distinct (map fst C)" by simp
      from Cons.prems(2) show "list_all (\<lambda>(k, e). service_id e = k) C" by simp
      from Cons.prems(3) show "''__proto__'' \<notin> set (map fst C)" by simp
      from Cons.prems(4) show "fst ` set C \<inter> fst ` set out = {}" by auto
    qed
    with False x show ?thesis by simp
  next
    case True
    let ?out = "out @ [(k, export_entry e)]"
    have "export_loop (map snd C) ?out
            = ?out @ map (\<lambda>(k, e). (k, export_entry e)) (filter (\<lambda>(k, e). active e) C)"
    proof (rule Cons.IH)
      from Cons.prems(1) show "distinct (map fst C)" by simp
      from Cons.prems(2) show "list_all (\<lambda>(k, e). service_id e = k) C" by simp
      from Cons.prems(3) show "''__proto__'' \<notin> set (map fst C)" by simp
      from Cons.prems(1,4) x show "fst ` set C \<inter> fst ` set ?out = {}" by auto
    qed
    with True x id np fresh show ?thesis by (simp add: obj_assign_fresh)
  qed
qed

text \<open>The import of such an export.\<close>

lemma normalize_exported:
  assumes "distinct (map fst Y)"
    and "list_all (\<lambda>(k, e). service_id e = k \<and> active e) Y"
    and "''__proto__'' \<notin> set (map fst Y)"
    and "fst ` set Y \<inter> fst ` set R = {}"
  shows "normalize_entries clock i (map (\<lambda>(k, e). (k, export_entry e)) Y) R
           = Inr (R @ map (reimported clock) (List.enumerate i Y))"
  using assms
proof (induction Y arbitrary: R i)
  case Nil
  then show ?case by simp
next
  case (Cons y Y)
  obtain k e where y: "y = (k, e)" by (cases y)
  from Cons.prems(2) y have id: "service_id e = k" and act: "active e" by simp_all
  from Cons.prems(3) y have np: "k \<noteq> ''__proto__''" by auto
  from Cons.prems(4) y have fresh: "k \<notin> fst ` set R" by auto
  let ?e = "e\<lparr>description := None, lastUpdated := clock i\<rparr>"
  have rec: "\<lparr>service_id = k, service_name = service_name e, description = None,
          telcos = telcos e, active = True, lastUpdated = clock i\<rparr> = ?e"
    using id act by simp
  let ?R = "R @ [(k, ?e)]"
  have step: "normalize_entries clock i (map (\<lambda>(k, e). (k, export_entry e)) (y # Y)) R
                = normalize_entries clock (Suc i) (map (\<lambda>(k, e). (k, export_entry e)) Y) ?R"
    using fresh np
    by (simp add: y export_entry_shape norm_entry_export obj_assign_fresh rec)
  have "normalize_entries clock (Suc i) (map (\<lambda>(k, e). (k, export_entry e)) Y) ?R
          = Inr (?R @ map (reimported clock) (List.enumerate (Suc i) Y))"
  proof (rule Cons.IH)
    from Cons.prems(1) show "distinct (map fst Y)" by simp
    from Cons.prems(2) show "list_all (\<lambda>(k, e). service_id e = k \<and> active e) Y" by simp
    from Cons.prems(3) show "''__proto__'' \<notin> set (map fst Y)" by simp
    from Cons.prems(1,4) y show "fst ` set Y \<inter> fst ` set ?R = {}" by auto
  qed
  with step y show ?case by (simp add: reimported_def)
qed

text \<open>
  Claim C5, as stated: the round trip loses only the guidance notes. The export leaves
  out every inactive service, and the import stamps every service with the time of the
  import: of the sample catalog the inactive \<open>old_service\<close> is gone after the round
  trip, and \<open>check_balance\<close> has a new \<open>lastUpdated\<close>.
\<close>

theorem export_import_roundtrip_counterexample:
  "map_option active (map_of sample_catalog ''old_service'') = Some False
   \<and> map_of (projr (normalizeImported sample_clock (toOriginalSchema sample_catalog)))
        ''old_service'' = None
   \<and> map_option lastUpdated (map_of sample_catalog ''check_balance'')
        = Some ''2025-11-01T09:00:00.000Z''
   \<and> map_option lastUpdated
        (map_of (projr (normalizeImported sample_clock (toOriginalSchema sample_catalog)))
           ''check_balance'')
        = Some ''2025-11-02T10:00:00.000Z''"
  by (simp add: normalizeImported_def toOriginalSchema_def sample_catalog_def sample_entry_def
        sample_clock_def obj_assign_def export_entry_def info_json_def norm_entry_def
        norm_description_def norm_telco_def truthy_val_def)

text \<open>
  Claim C5, amended. For every catalog, importing its full export succeeds, and exporting
  the result gives the same projection again. For a catalog that stores its services
  under their ids (distinct, none of them \<open>__proto__\<close>), the re-imported catalog holds
  exactly the active services of the original, in their order and under their ids; each
  has lost its guidance note and has the time of the import as \<open>lastUpdated\<close>, and is
  otherwise the service it was. The inactive services are lost.
\<close>

theorem export_import_roundtrip:
  "(\<exists>C'. normalizeImported clock (toOriginalSchema C) = Inr C'
      \<and> toOriginalSchema C' = toOriginalSchema C)
   \<and> (catalog_wf C \<longrightarrow>
        normalizeImported clock (toOriginalSchema C)
          = Inr (map (reimported clock) (List.enumerate 0 (filter (\<lambda>(k, e). active e) C))))"
proof (intro conjI impI)
  let ?X = "export_loop (map snd C) []"
  have d: "distinct (map fst ?X)" by (rule export_loop_distinct) simp
  have v: "snd ` set ?X \<subseteq> range export_entry"
    using export_loop_values [of "map snd C" "[]"] by simp
  have p: "''__proto__'' \<notin> fst ` set ?X"
    using export_loop_keys [of "map snd C" "[]"] by auto
  have "\<exists>C'. normalize_entries clock 0 ?X [] = Inr C'
           \<and> export_loop (map snd C') [] = export_loop (map snd ([] :: ServiceMap)) [] @ ?X"
    by (rule roundtrip_loop [OF d _ v _ p]) simp_all
  then show "\<exists>C'. normalizeImported clock (toOriginalSchema C) = Inr C'
      \<and> toOriginalSchema C' = toOriginalSchema C"
    by (simp add: normalizeImported_def toOriginalSchema_def)
next
  assume wf: "catalog_wf C"
  let ?Y = "filter (\<lambda>(k, e). active e) C"
  from wf have x: "export_loop (map snd C) [] = [] @ map (\<lambda>(k, e). (k, export_entry e)) ?Y"
    by (intro export_loop_wf) (simp_all add: catalog_wf_def)
  have "normalize_entries clock 0 (map (\<lambda>(k, e). (k, export_entry e)) ?Y) []
          = Inr ([] @ map (reimported clock) (List.enumerate 0 ?Y))"
  proof (rule normalize_exported)
    from wf show "distinct (map fst ?Y)" by (simp add: catalog_wf_def distinct_map_filter)
    from wf show "list_all (\<lambda>(k, e). service_id e = k \<and> active e) ?Y"
      by (auto simp add: catalog_wf_def list_all_iff)
    from wf show "''__proto__'' \<notin> set (map fst ?Y)" by (auto simp add: catalog_wf_def)
    show "fst ` set ?Y \<inter> fst ` set [] = {}" by simp
  qed
  with x show "normalizeImported clock (toOriginalSchema C)
          = Inr (map (reimported clock) (List.enumerate 0 ?Y))"
    by (simp add: normalizeImported_def toOriginalSchema_def)
qed

theorem export_import_roundtrip_witness:
  "catalog_wf sample_catalog
   \<and> normalizeImported sample_clock (toOriginalSchema sample_catalog)
     = Inr [(''check_balance'',
             sample_entry\<lparr>description := None, lastUpdated := ''2025-11-02T10:00:00.000Z''\<rparr>)]
   \<and> toOriginalSchema
        [(''check_balance'',
          sample_entry\<lparr>description := None, lastUpdated := ''2025-11-02T10:00:00.000Z''\<rparr>)]
     = toOriginalSchema sample_catalog"
proof -
  have wf: "catalog_wf sample_catalog"
    by (simp add: catalog_wf_def sample_catalog_def sample_entry_def)
  have f: "map (reimported sample_clock)
             (List.enumerate 0 (filter (\<lambda>(k, e). active e) sample_catalog))
           = [(''check_balance'',
             sample_entry\<lparr>description := None, lastUpdated := ''2025-11-02T10:00:00.000Z''\<rparr>)]"
    by (simp add: sample_catalog_def sample_entry_def reimported_def sample_clock_def)
  from export_import_roundtrip [of sample_clock sample_catalog] wf f show ?thesis
    by auto
qed

section \<open>Subset import\<close>

lemma telco_get_set_other: "t \<noteq> n \<Longrightarrow> telco_get t (telco_set n x ts) = telco_get t ts"
  by (cases t; cases n) simp_all

lemma outside_refl: "outside_unchanged n e e"
  by (simp add: outside_unchanged_def)

lemma outside_trans:
  "outside_unchanged n e1 e2 \<Longrightarrow> outside_unchanged n e2 e3 \<Longrightarrow> outside_unchanged n e1 e3"
  by (simp add: outside_unchanged_def)

lemma outside_patch:
  "outside_unchanged n e (e\<lparr>telcos := telco_set n x (telcos e), lastUpdated := now\<rparr>)"
  by (simp add: outside_unchanged_def telco_get_set_other)

lemma update_keys_known: "map_of al k = Some v0 \<Longrightarrow> map fst (AList.update k v al) = map fst al"
  by (induction al) (auto split: if_splits)

text \<open>An entry for an id that the catalog does not hold is skipped, unless the id is inherited.\<close>

lemma apply_entries_skip:
  assumes "map_of m sid = None" and "sid \<notin> set inherited_names"
  shows "apply_entries clock i n ((sid, patch) # rest) m = apply_entries clock (Suc i) n rest m"
  using assms by (simp add: js_get_None)

lemma apply_entries_inherited:
  assumes "map_of m sid = None" and "sid \<in> set inherited_names"
  shows "apply_entries clock i n ((sid, patch) # rest) m = Inl TypeError"
  using assms by (simp add: js_get_None)

text \<open>One round of the loop on a service of the catalog, when it does not throw.\<close>

lemma apply_entries_own:
  assumes "map_of m sid = Some entry"
    and "apply_entries clock i n ((sid, patch) # rest) m = Inr m'"
  shows "\<exists>x. apply_entries clock (Suc i) n rest
               (AList.update sid
                  (entry\<lparr>telcos := telco_set n x (telcos entry), lastUpdated := clock i\<rparr>) m)
             = Inr m'"
proof -
  let ?t = "telco_get n (telcos entry)"
  note own = js_get_Own [OF assms(1)]
  from assms(2) own have nn: "patch \<noteq> JNull" by (auto split: if_splits)
  show ?thesis
  proof (cases "js_String (nullish_or (get_prop patch ''code'') (JStr (code ?t)))")
    case (Inl e)
    with assms(2) own nn show ?thesis by (simp add: Let_def)
  next
    case c: (Inr c)
    show ?thesis
    proof (cases "js_String (nullish_or (get_prop patch ''explanation'') (JStr (explanation ?t)))")
      case (Inl e)
      with assms(2) own nn c show ?thesis by (simp add: Let_def)
    next
      case (Inr x)
      with assms(2) own nn c have
        "apply_entries clock (Suc i) n rest
           (AList.update sid
              (entry\<lparr>telcos := telco_set n \<lparr>code = c, explanation = x\<rparr> (telcos entry),
                     lastUpdated := clock i\<rparr>) m) = Inr m'"
        by (simp add: Let_def)
      then show ?thesis by blast
    qed
  qed
qed

text \<open>
  Whenever the subset import returns, the catalog has the same service ids in the same
  order, and of every service the id, display name, description, active flag and every
  network other than \<open>n\<close> are unchanged; a service that the document does not name is
  unchanged altogether.
\<close>

lemma apply_entries_frame:
  assumes "apply_entries clock i n es m = Inr m'"
  shows "map fst m' = map fst m
         \<and> (\<forall>k e. map_of m k = Some e \<longrightarrow>
              (\<exists>e'. map_of m' k = Some e' \<and> outside_unchanged n e e'
                    \<and> (k \<notin> fst ` set es \<longrightarrow> e' = e)))"
  using assms
proof (induction es arbitrary: m i)
  case Nil
  then show ?case by (simp add: outside_refl)
next
  case (Cons x es)
  obtain sid patch where x: "x = (sid, patch)" by (cases x)
  show ?case
  proof (cases "map_of m sid")
    case None
    with Cons.prems x have "apply_entries clock (Suc i) n es m = Inr m'"
      by (simp add: js_get_None split: if_splits)
    from Cons.IH [OF this] show ?thesis by (simp add: x) blast
  next
    case (Some entry)
    from Cons.prems x have "apply_entries clock i n ((sid, patch) # es) m = Inr m'" by simp
    from apply_entries_own [OF Some this] obtain y where
      run: "apply_entries clock (Suc i) n es
              (AList.update sid
                 (entry\<lparr>telcos := telco_set n y (telcos entry), lastUpdated := clock i\<rparr>) m)
            = Inr m'"
      by blast
    let ?entry = "entry\<lparr>telcos := telco_set n y (telcos entry), lastUpdated := clock i\<rparr>"
    let ?m1 = "AList.update sid ?entry m"
    note ih = Cons.IH [OF run]
    have keys: "map fst ?m1 = map fst m" using Some by (rule update_keys_known)
    have "\<exists>e'. map_of m' k = Some e' \<and> outside_unchanged n e e'
              \<and> (k \<notin> fst ` set (x # es) \<longrightarrow> e' = e)"
      if look: "map_of m k = Some e" for k e
    proof (cases "k = sid")
      case True
      with look Some have "e = entry" by simp
      moreover have "map_of ?m1 sid = Some ?entry" by (simp add: update_conv')
      with ih obtain e' where "map_of m' sid = Some e'" "outside_unchanged n ?entry e'"
        by blast
      moreover have "outside_unchanged n entry ?entry" by (rule outside_patch)
      ultimately show ?thesis using True x by (auto intro: outside_trans)
    next
      case False
      with look have "map_of ?m1 k = Some e" by (simp add: update_conv')
      with ih obtain e' where "map_of m' k = Some e'" "outside_unchanged n e e'"
        "k \<notin> fst ` set es \<longrightarrow> e' = e"
        by blast
      then show ?thesis using False x by auto
    qed
    with ih keys show ?thesis by simp
  qed
qed

lemma subset_import_frame:
  assumes "applyTelcoSubset clock m n subset_doc = Inr next"
  shows "map fst next = map fst m
       \<and> (\<forall>k e. map_of m k = Some e \<longrightarrow>
             (\<exists>e'. map_of next k = Some e'
                   \<and> service_id e' = service_id e \<and> service_name e' = service_name e
                   \<and> description e' = description e \<and> active e' = active e
                   \<and> (\<forall>t. t \<noteq> n \<longrightarrow> telco_get t (telcos e') = telco_get t (telcos e))))"
proof (cases "js_entries subset_doc")
  case (Inl e)
  with assms show ?thesis by (simp add: applyTelcoSubset_def)
next
  case (Inr es)
  with assms have "apply_entries clock 0 n es m = Inr next" by (simp add: applyTelcoSubset_def)
  from apply_entries_frame [OF this] show ?thesis
    by (simp add: outside_unchanged_def) blast
qed

text \<open>
  Claim C6: a subset import touches only the fields of its network, and skips silently
  the entries whose service id is not in the catalog. The entry for \<open>unknown_service\<close>
  is skipped, the patch of \<open>check_balance\<close> reaches only the Glo code and the time, and
  the inactive \<open>old_service\<close> is left as it was. An entry under \<open>constructor\<close>, which
  is not a service of the catalog either, is not skipped: the guard
  \<open>if (!next[service_id]) continue; // skip unknown services\<close> finds the inherited
  property, and the import throws where the claim has it return the catalog unchanged.
\<close>

theorem subset_import_inherited_id_throws:
  "applyTelcoSubset sample_clock sample_catalog Glo sample_subset
     = Inr [(''check_balance'',
             sample_entry\<lparr>telcos := (telcos sample_entry)
                             \<lparr>glo := \<lparr>code = ''*555#'', explanation = ''Glo balance''\<rparr>\<rparr>,
                          lastUpdated := ''2025-11-02T10:00:00.000Z''\<rparr>),
            (''old_service'', sample_entry\<lparr>service_id := ''old_service'', active := False\<rparr>)]
   \<and> map_of sample_catalog ''constructor'' = None
   \<and> applyTelcoSubset sample_clock sample_catalog Glo inherited_subset = Inl TypeError"
  by (simp add: applyTelcoSubset_def sample_subset_def inherited_subset_def sample_catalog_def
        sample_entry_def sample_clock_def js_get_def inherited_names_def)

end
